theory Spec2Isabelle
  imports Complex_Main
begin

section \<open>Data model\<close>

text \<open>
  JavaScript numbers are modelled as \<^typ>\<open>real\<close>, array indices and counters as
  \<^typ>\<open>nat\<close>, strings as \<^typ>\<open>string\<close> and category tags as string literals,
  as the source writes them. A property that is absent (\<open>undefined\<close>) is \<open>None\<close>.
\<close>

subsection \<open>Subjectivity profile (result of \<open>SubjectivityExtractor.extractSubjectivity\<close>)\<close>

record narrative_style_rec =
  ns_type :: string
  ns_score :: real
  ns_distribution :: "(string \<times> real) list option"

record emotional_expression_rec =
  ee_level :: string
  ee_intensity :: real

record temporal_orientation_rec =
  to_orientation :: string
  to_score :: real
  to_distribution :: "(string \<times> real) list option"

record self_reference_rec =
  sr_level :: string
  sr_score :: real

record complexity_rec =
  cx_level :: string
  cx_score :: real

record authenticity_rec =
  au_style :: string
  au_score :: real
  au_distribution :: "(string \<times> real) list option"

record expression_mode_rec =
  em_mode :: string
  em_score :: real

record subjectivity =
  narrative_style :: narrative_style_rec
  emotional_expression :: emotional_expression_rec
  temporal_orientation :: temporal_orientation_rec
  self_reference :: self_reference_rec
  complexity :: complexity_rec
  authenticity :: authenticity_rec
  rhythm :: real
  reflection_depth :: real
  expression_mode :: expression_mode_rec
  uniqueness :: real

subsection \<open>Glyph signature (result of \<open>IsotypeRenderer.generateIsotypeSignature\<close>)\<close>

record shape_deformation =
  sd_regularity :: real
  sd_deformation :: real
  sd_asymmetry :: real

record internal_pattern =
  ip_density :: real
  ip_patternType :: string
  ip_complexity :: real
  ip_reflectionDepth :: real

record edge_characteristics =
  ec_sharpness :: real
  ec_regularity :: real
  ec_thickness :: real

record color_adjustment =
  ca_saturation :: real
  ca_hueShift :: real
  ca_opacity :: real
  ca_brightness :: real

record signature =
  baseShape :: string
  baseSize :: real
  baseColor :: string
  sig_subjectivity :: subjectivity
  shapeDeformation :: shape_deformation
  internalPattern :: internal_pattern
  edgeCharacteristics :: edge_characteristics
  colorAdjustment :: color_adjustment

record shape_point =
  pt_x :: real
  pt_y :: real
  pt_angle :: real

subsection \<open>Participants\<close>

text \<open>
  A participant as \<open>DataLoader.transformData\<close> builds it: every participant carries an
  \<open>isotype_signature\<close> object, whose vectors may be absent, as may the text, the
  text length of the metadata and the colour of the visual properties.
\<close>

record isotype_signature =
  semantic :: "real list option"
  emotion :: "real list option"
  unified :: "real list option"
  uniqueness_score :: "real option"

record node =
  node_id :: string
  text_content :: "string option"
  isotype_sig :: isotype_signature
  text_length :: "real option"
  color :: "string option"

section \<open>SubjectivityExtractor\<close>

subsection \<open>Strings and regular expressions\<close>

text \<open>
  A text is a list of ASCII characters. \<open>\w\<close> is \<open>[A-Za-z0-9_]\<close>, \<open>\s\<close> is the ASCII
  white space, and \<open>.\<close> is any character but a line terminator.
\<close>

definition isWordChar :: "char \<Rightarrow> bool" where
  "isWordChar c =
     (let n = (of_char c :: nat)
      in (48 \<le> n \<and> n \<le> 57) \<or> (65 \<le> n \<and> n \<le> 90) \<or> n = 95 \<or> (97 \<le> n \<and> n \<le> 122))"

definition isSpace :: "char \<Rightarrow> bool" where
  "isSpace c = (let n = (of_char c :: nat) in (9 \<le> n \<and> n \<le> 13) \<or> n = 32)"

definition isLineTerminator :: "char \<Rightarrow> bool" where
  "isLineTerminator c = (let n = (of_char c :: nat) in n = 10 \<or> n = 13)"

definition toLowerCase :: "string \<Rightarrow> string" where
  "toLowerCase text =
     map (\<lambda>c. let n = (of_char c :: nat)
               in if 65 \<le> n \<and> n \<le> 90 then char_of (n + 32) else c) text"

definition startsWith :: "string \<Rightarrow> string \<Rightarrow> bool" where
  "startsWith pat text = (take (length pat) text = pat)"

text \<open>
  \<open>(text.match(new RegExp(pat, 'g')) || []).length\<close> for a pattern without special
  characters: the matches are found from left to right and do not overlap. The empty
  pattern matches at every position.
\<close>

function countLiteral :: "string \<Rightarrow> string \<Rightarrow> nat" where
  "countLiteral pat text =
     (if pat = [] then length text + 1
      else (case text of
              [] \<Rightarrow> 0
            | c # cs \<Rightarrow>
                if startsWith pat text
                then 1 + countLiteral pat (drop (length pat) text)
                else countLiteral pat cs))"
  by pat_completeness auto
termination
  by (relation "measure (\<lambda>(pat, text). length text)") auto

declare countLiteral.simps [simp del]

text \<open>
  \<open>\b\<close> holds between two positions when exactly one of the neighbouring characters is a
  word character; the start and the end of the text count as no word character.
\<close>

definition wordBoundary :: "char option \<Rightarrow> char option \<Rightarrow> bool" where
  "wordBoundary prev next =
     ((case prev of None \<Rightarrow> False | Some c \<Rightarrow> isWordChar c)
        \<noteq> (case next of None \<Rightarrow> False | Some c \<Rightarrow> isWordChar c))"

definition headOpt :: "string \<Rightarrow> char option" where
  "headOpt text = (case text of [] \<Rightarrow> None | c # cs \<Rightarrow> Some c)"

definition matchesWord :: "string \<Rightarrow> char option \<Rightarrow> string \<Rightarrow> bool" where
  "matchesWord pat prev text =
     (pat \<noteq> [] \<and> startsWith pat text \<and> wordBoundary prev (headOpt text) \<and>
      wordBoundary (Some (last pat)) (headOpt (drop (length pat) text)))"

text \<open>
  The first alternative of \<open>\b(p1|p2|...)\b\<close> that matches at the head of the text, the
  character before it being \<open>prev\<close>.
\<close>

fun firstAlt :: "string list \<Rightarrow> char option \<Rightarrow> string \<Rightarrow> string option" where
  "firstAlt [] prev text = None"
| "firstAlt (p # ps) prev text =
     (if matchesWord p prev text then Some p else firstAlt ps prev text)"

lemma firstAlt_nonempty: "firstAlt alts prev text = Some p \<Longrightarrow> p \<noteq> []"
  by (induction alts) (auto simp add: matchesWord_def split: if_splits)

text \<open>
  \<open>(text.match(/\b(p1|p2|...)\b/g) || []).length\<close> for alternatives without special
  characters.
\<close>

function countWordAlt :: "string list \<Rightarrow> char option \<Rightarrow> string \<Rightarrow> nat" where
  "countWordAlt alts prev text =
     (case text of
        [] \<Rightarrow> 0
      | c # cs \<Rightarrow>
          (case firstAlt alts prev text of
             Some p \<Rightarrow> 1 + countWordAlt alts (Some (last p)) (drop (length p) text)
           | None \<Rightarrow> countWordAlt alts (Some c) cs))"
  by pat_completeness auto
termination
  by (relation "measure (\<lambda>(alts, prev, text). length text)")
     (auto dest!: firstAlt_nonempty)

declare countWordAlt.simps [simp del]

text \<open>
  \<open>indicators.reduce((sum, w) => sum + (text.match(new RegExp(w, 'g')) || []).length, 0)\<close>
  and the same with \<open>new RegExp(`\\b${w}\\b`, 'g')\<close>.
\<close>

definition countIndicators :: "string list \<Rightarrow> string \<Rightarrow> nat" where
  "countIndicators indicators text = sum_list (map (\<lambda>w. countLiteral w text) indicators)"

definition countWordIndicators :: "string list \<Rightarrow> string \<Rightarrow> nat" where
  "countWordIndicators indicators text =
     sum_list (map (\<lambda>w. countWordAlt [w] None text) indicators)"

definition countChar :: "char \<Rightarrow> string \<Rightarrow> nat" where
  "countChar c text = length (filter (\<lambda>d. d = c) text)"

text \<open>
  \<open>(text.match(/(.)\1{2,}/g) || []).length\<close>: the maximal runs of at least three equal
  characters.
\<close>

function countRepetitions :: "string \<Rightarrow> nat" where
  "countRepetitions [] = 0"
| "countRepetitions (c # cs) =
     (if length (takeWhile (\<lambda>d. d = c) cs) \<ge> 2 \<and> \<not> isLineTerminator c then 1 else 0)
       + countRepetitions (dropWhile (\<lambda>d. d = c) cs)"
  by pat_completeness auto
termination
  by (relation "measure length") (auto simp add: length_dropWhile_le less_Suc_eq_le)

text \<open>\<open>text.split(sep)\<close> for a separator that is one character of a class.\<close>

fun splitOn :: "(char \<Rightarrow> bool) \<Rightarrow> string \<Rightarrow> string list" where
  "splitOn P [] = [[]]"
| "splitOn P (c # cs) =
     (if P c then [] # splitOn P cs
      else (case splitOn P cs of [] \<Rightarrow> [[c]] | w # ws \<Rightarrow> (c # w) # ws))"

definition isSentenceEnd :: "char \<Rightarrow> bool" where
  "isSentenceEnd c = (c = CHR ''.'' \<or> c = CHR ''!'' \<or> c = CHR ''?'')"

text \<open>\<open>text.split(/[.!?]/).filter(s => s.trim().length > 0)\<close>\<close>

definition sentencesOf :: "string \<Rightarrow> string list" where
  "sentencesOf text = filter (\<lambda>s. \<exists>c \<in> set s. \<not> isSpace c) (splitOn isSentenceEnd text)"

text \<open>
  \<open>text.split(/\s+/).length\<close>: one more than the number of maximal runs of white space.
\<close>

fun spaceRuns :: "bool \<Rightarrow> string \<Rightarrow> nat" where
  "spaceRuns inRun [] = 0"
| "spaceRuns inRun (c # cs) =
     (if isSpace c then (if inRun then 0 else 1) + spaceRuns True cs
      else spaceRuns False cs)"

definition splitSpaceCount :: "string \<Rightarrow> nat" where
  "splitSpaceCount text = spaceRuns False text + 1"

text \<open>\<open>text.match(/\b\w+\b/g) || []\<close>: the maximal runs of word characters.\<close>

fun wordsFrom :: "string \<Rightarrow> string \<Rightarrow> string list" where
  "wordsFrom cur [] = (if cur = [] then [] else [rev cur])"
| "wordsFrom cur (c # cs) =
     (if isWordChar c then wordsFrom (c # cur) cs
      else if cur = [] then wordsFrom [] cs
      else rev cur # wordsFrom [] cs)"

definition wordsOf :: "string \<Rightarrow> string list" where
  "wordsOf text = wordsFrom [] text"

text \<open>\<open>uniqueWords.size / Math.max(1, words.length)\<close>\<close>

definition lexicalDiversity :: "string \<Rightarrow> real" where
  "lexicalDiversity text =
     (let words = wordsOf (toLowerCase text)
      in real (length (remdups words)) / real (max 1 (length words)))"

subsection \<open>Numbers\<close>

text \<open>\<open>Math.max(...xs)\<close> for a nonempty array.\<close>

definition maxOf :: "real list \<Rightarrow> real" where
  "maxOf xs = fold max (tl xs) (hd xs)"

definition meanOf :: "real list \<Rightarrow> real" where
  "meanOf xs = sum_list xs / real (length xs)"

text \<open>\<open>xs.reduce((sum, v) => sum + Math.pow(v - mean, 2), 0) / xs.length\<close>\<close>

definition varianceOf :: "real list \<Rightarrow> real \<Rightarrow> real" where
  "varianceOf xs mean = sum_list (map (\<lambda>v. (v - mean)\<^sup>2) xs) / real (length xs)"

text \<open>
  \<open>Object.keys(scores).find(key => scores[key] === maxScore)\<close> with
  \<open>maxScore = Math.max(...Object.values(scores))\<close>: the first key whose score is the
  maximum, \<open>None\<close> standing for \<open>undefined\<close>.
\<close>

definition dominantKey :: "(string \<times> real) list \<Rightarrow> string option" where
  "dominantKey scores =
     map_option fst (find (\<lambda>kv. snd kv = maxOf (map snd scores)) scores)"

definition keyOrUndefined :: "string option \<Rightarrow> string" where
  "keyOrUndefined k = (case k of Some s \<Rightarrow> s | None \<Rightarrow> ''undefined'')"

subsection \<open>The indicator lists\<close>

text \<open>
  The keyword lists of the analyzers, under the names the source gives them
  (\<open>modeDirectIndicators\<close> is the \<open>directIndicators\<close> of \<open>analyzeExpressionMode\<close>).
\<close>

definition directIndicators :: "string list" where
  "directIndicators =
     [''i said'', ''i did'', ''i went'', ''i was'', ''i am'']"

definition reflectiveIndicators :: "string list" where
  "reflectiveIndicators =
     [''i think'', ''i feel'', ''i believe'', ''i realize'', ''i understand'',
      ''reflection'', ''looking back'']"

definition metaphoricalIndicators :: "string list" where
  "metaphoricalIndicators =
     [''like'', ''as if'', ''as though'', ''metaphor'', ''symbol'']"

definition conversationalIndicators :: "string list" where
  "conversationalIndicators =
     [''you know'', ''i mean'', ''like i said'', ''you know what'', ''sayin'']"

definition intenseEmotions :: "string list" where
  "intenseEmotions =
     [''love'', ''hate'', ''terrible'', ''amazing'', ''devastated'', ''ecstatic'',
      ''horrible'', ''wonderful'']"

definition moderateEmotions :: "string list" where
  "moderateEmotions =
     [''happy'', ''sad'', ''angry'', ''worried'', ''excited'', ''disappointed'']"

definition reservedEmotions :: "string list" where
  "reservedEmotions =
     [''okay'', ''fine'', ''alright'', ''good'', ''bad'']"

definition pastIndicators :: "string list" where
  "pastIndicators =
     [''was'', ''were'', ''had'', ''went'', ''did'', ''said'', ''thought'', ''felt'',
      ''used to'', ''before'', ''ago'', ''back then'']"

definition presentIndicators :: "string list" where
  "presentIndicators =
     [''am'', ''is'', ''are'', ''do'', ''have'', ''now'', ''currently'', ''today'',
      ''right now'']"

definition futureIndicators :: "string list" where
  "futureIndicators =
     [''will'', ''going to'', ''gonna'', ''future'', ''later'', ''soon'', ''hope'',
      ''plan'', ''want to'']"

definition firstPerson :: "string list" where
  "firstPerson =
     [''i '', ''i'' @ [CHR 0x27], ''me '', ''my '', ''myself'', ''mine'']"

definition formalIndicators :: "string list" where
  "formalIndicators =
     [''therefore'', ''however'', ''furthermore'', ''moreover'', ''consequently'',
      ''nevertheless'']"

definition casualIndicators :: "string list" where
  "casualIndicators =
     [''gonna'', ''wanna'', ''gotta'', ''yeah'', ''yep'', ''nah'',
      ''ain'' @ [CHR 0x27] @ ''t'', ''don'' @ [CHR 0x27] @ ''t'',
      ''can'' @ [CHR 0x27] @ ''t'']"

definition intimateIndicators :: "string list" where
  "intimateIndicators =
     [''i feel'', ''i think'', ''for me'', ''personally'', ''my heart'', ''my soul'',
      ''deeply'']"

definition reflectionIndicators :: "string list" where
  "reflectionIndicators =
     [''reflect'', ''think about'', ''realize'', ''understand'', ''learn'',
      ''realized'', ''understood'', ''learned'', ''came to understand'',
      ''looking back'', ''in retrospect'', ''now i see'', ''i see now'']"

definition modeDirectIndicators :: "string list" where
  "modeDirectIndicators =
     [''i said'', ''i told'', ''i think'', ''i believe'', ''i feel'', ''i know'']"

definition indirectIndicators :: "string list" where
  "indirectIndicators =
     [''like'', ''as if'', ''seems'', ''appears'', ''maybe'', ''perhaps'', ''might'',
      ''could'']"

subsection \<open>The analyzers\<close>

definition analyzeNarrativeStyle :: "string \<Rightarrow> narrative_style_rec" where
  "analyzeNarrativeStyle text =
     (if text = [] then \<lparr>ns_type = ''conversational'', ns_score = 0.5, ns_distribution = None\<rparr>
      else
        (let lowerText = toLowerCase text;
             directCount = countIndicators directIndicators lowerText;
             reflectiveCount = countIndicators reflectiveIndicators lowerText;
             metaphoricalCount = countIndicators metaphoricalIndicators lowerText;
             conversationalCount = countIndicators conversationalIndicators lowerText;
             total = directCount + reflectiveCount + metaphoricalCount + conversationalCount
         in if total = 0
            then \<lparr>ns_type = ''conversational'', ns_score = 0.5, ns_distribution = None\<rparr>
            else
              (let scores =
                     [(''direct'', real directCount / real total),
                      (''reflective'', real reflectiveCount / real total),
                      (''metaphorical'', real metaphoricalCount / real total),
                      (''conversational'', real conversationalCount / real total)];
                   maxScore = maxOf (map snd scores);
                   dominantType = dominantKey scores
               in \<lparr>ns_type = keyOrUndefined dominantType, ns_score = maxScore,
                   ns_distribution = Some scores\<rparr>)))"

definition analyzeEmotionalExpression :: "string \<Rightarrow> real list \<Rightarrow> emotional_expression_rec" where
  "analyzeEmotionalExpression text emotionVec =
     (if text = [] then \<lparr>ee_level = ''moderate'', ee_intensity = 0.5\<rparr>
      else
        (let lowerText = toLowerCase text;
             intenseCount = countWordIndicators intenseEmotions lowerText;
             moderateCount = countWordIndicators moderateEmotions lowerText;
             reservedCount = countWordIndicators reservedEmotions lowerText;
             emotionIntensity = (if length emotionVec > 0 then maxOf emotionVec else 0.5);
             exclamationCount = countChar CHR ''!'' text;
             repetitionPattern = countRepetitions text;
             totalIndicators = real intenseCount * 3 + real moderateCount * 2
                               + real reservedCount + real exclamationCount * 0.5
                               + real repetitionPattern * 0.3;
             normalizedIntensity = min 1 (totalIndicators / 20 + emotionIntensity * 0.5);
             level = (if normalizedIntensity < 0.3 then ''reserved''
                      else if normalizedIntensity < 0.6 then ''moderate''
                      else if normalizedIntensity < 0.8 then ''expressive''
                      else ''intense'')
         in \<lparr>ee_level = level, ee_intensity = normalizedIntensity\<rparr>))"

definition analyzeTemporalOrientation :: "string \<Rightarrow> temporal_orientation_rec" where
  "analyzeTemporalOrientation text =
     (if text = [] then \<lparr>to_orientation = ''mixed'', to_score = 0.33, to_distribution = None\<rparr>
      else
        (let lowerText = toLowerCase text;
             pastCount = countWordIndicators pastIndicators lowerText;
             presentCount = countWordIndicators presentIndicators lowerText;
             futureCount = countWordIndicators futureIndicators lowerText;
             total = pastCount + presentCount + futureCount
         in if total = 0
            then \<lparr>to_orientation = ''mixed'', to_score = 0.33, to_distribution = None\<rparr>
            else
              (let scores =
                     [(''past'', real pastCount / real total),
                      (''present'', real presentCount / real total),
                      (''future'', real futureCount / real total)];
                   maxScore = maxOf (map snd scores);
                   dominantOrientation = dominantKey scores
               in \<lparr>to_orientation =
                     (if dominantOrientation = Some ''past'' then ''past_focused''
                      else if dominantOrientation = Some ''present'' then ''present_focused''
                      else if dominantOrientation = Some ''future'' then ''future_focused''
                      else ''mixed''),
                   to_score = maxScore,
                   to_distribution = Some scores\<rparr>)))"

definition analyzeSelfReference :: "string \<Rightarrow> self_reference_rec" where
  "analyzeSelfReference text =
     (if text = [] then \<lparr>sr_level = ''medium'', sr_score = 0.5\<rparr>
      else
        (let lowerText = toLowerCase text;
             firstPersonCount = countIndicators firstPerson lowerText;
             wordCount = splitSpaceCount text;
             normalizedScore = min 1 (real firstPersonCount / (real wordCount / 10));
             level = (if normalizedScore < 0.3 then ''low''
                      else if normalizedScore < 0.6 then ''medium''
                      else ''high'')
         in \<lparr>sr_level = level, sr_score = normalizedScore\<rparr>))"

definition analyzeComplexity :: "string \<Rightarrow> real list \<Rightarrow> complexity_rec" where
  "analyzeComplexity text semanticVec =
     (if text = [] then \<lparr>cx_level = ''moderate'', cx_score = 0.5\<rparr>
      else
        (let sentences = sentencesOf text;
             avgSentenceLength =
               (if length sentences > 0
                then sum_list (map (\<lambda>s. real (length s)) sentences) / real (length sentences)
                else 50);
             sentenceVariance =
               (if length sentences > 1
                then varianceOf (map (\<lambda>s. real (length s)) sentences) avgSentenceLength
                else 0);
             diversity = lexicalDiversity text;
             semanticComplexity =
               (if length semanticVec > 0
                then sum_list (map abs (take 20 semanticVec)) / 20
                else 0.5);
             complexityScore =
               min 1 (avgSentenceLength / 100) * 0.3 + min 1 (sentenceVariance / 1000) * 0.2
               + diversity * 0.3 + semanticComplexity * 0.2;
             level = (if complexityScore < 0.4 then ''simple''
                      else if complexityScore < 0.7 then ''moderate''
                      else ''complex'')
         in \<lparr>cx_level = level, cx_score = complexityScore\<rparr>))"

definition analyzeAuthenticity :: "string \<Rightarrow> authenticity_rec" where
  "analyzeAuthenticity text =
     (if text = [] then \<lparr>au_style = ''casual'', au_score = 0.5, au_distribution = None\<rparr>
      else
        (let lowerText = toLowerCase text;
             formalCount = countWordIndicators formalIndicators lowerText;
             casualCount = countWordIndicators casualIndicators lowerText;
             intimateCount = countIndicators intimateIndicators lowerText;
             total = formalCount + casualCount + intimateCount
         in if total = 0
            then \<lparr>au_style = ''casual'', au_score = 0.5, au_distribution = None\<rparr>
            else
              (let scores =
                     [(''formal'', real formalCount / real total),
                      (''casual'', real casualCount / real total),
                      (''intimate'', real intimateCount / real total)];
                   maxScore = maxOf (map snd scores);
                   dominantStyle = dominantKey scores
               in \<lparr>au_style = keyOrUndefined dominantStyle, au_score = maxScore,
                   au_distribution = Some scores\<rparr>)))"

definition analyzeRhythm :: "string \<Rightarrow> real" where
  "analyzeRhythm text =
     (if text = [] then 0.5
      else
        (let sentences = sentencesOf text
         in if length sentences < 2 then 0.5
            else
              (let sentenceLengths = map (\<lambda>s. real (length s)) sentences;
                   avgLength = meanOf sentenceLengths;
                   variance = varianceOf sentenceLengths avgLength
               in min 1 (variance / (avgLength * avgLength)))))"

definition analyzeReflectionDepth :: "string \<Rightarrow> real" where
  "analyzeReflectionDepth text =
     (if text = [] then 0.5
      else
        (let lowerText = toLowerCase text;
             reflectionCount = countIndicators reflectionIndicators lowerText;
             questionCount = countChar CHR ''?'' text;
             conditionalCount =
               countWordAlt [''if'', ''whether'', ''what if'', ''suppose''] None lowerText;
             wordCount = splitSpaceCount text
         in min 1 ((real reflectionCount * 2 + real questionCount * 0.5 + real conditionalCount)
                     / (real wordCount / 50))))"

definition analyzeExpressionMode :: "string \<Rightarrow> expression_mode_rec" where
  "analyzeExpressionMode text =
     (if text = [] then \<lparr>em_mode = ''direct'', em_score = 0.5\<rparr>
      else
        (let lowerText = toLowerCase text;
             directCount = countIndicators modeDirectIndicators lowerText;
             indirectCount = countWordIndicators indirectIndicators lowerText;
             total = directCount + indirectCount
         in if total = 0 then \<lparr>em_mode = ''direct'', em_score = 0.5\<rparr>
            else
              (let directScore = real directCount / real total
               in \<lparr>em_mode = (if directScore > 0.6 then ''direct'' else ''indirect''),
                   em_score = directScore\<rparr>)))"

definition calculateVariance :: "real list \<Rightarrow> real" where
  "calculateVariance vector =
     (if length vector = 0 then 0.5
      else
        (let mean = meanOf vector;
             variance = varianceOf vector mean;
             stdDev = sqrt variance
         in min 1 (stdDev / 0.3)))"

definition calculateUniqueness :: "string \<Rightarrow> real list \<Rightarrow> real list \<Rightarrow> real" where
  "calculateUniqueness text semanticVec emotionVec =
     (let semanticVariance =
            (if length semanticVec > 0 then calculateVariance semanticVec else 0.5);
          emotionVariance =
            (if length emotionVec > 0 then calculateVariance emotionVec else 0.5);
          lexDiversity = lexicalDiversity text;
          uniq = semanticVariance * 0.4 + emotionVariance * 0.3 + lexDiversity * 0.3
      in min 1 (max 0 uniq))"

text \<open>
  \<open>extractSubjectivity(node)\<close>: \<open>node.text_content || ''\<close> and
  \<open>node.isotype_signature?.semantic || []\<close> turn an absent value into the empty one.
\<close>

definition orEmpty :: "'a list option \<Rightarrow> 'a list" where
  "orEmpty v = (case v of Some xs \<Rightarrow> xs | None \<Rightarrow> [])"

definition extractSubjectivity :: "node \<Rightarrow> subjectivity" where
  "extractSubjectivity nd =
     (let text = orEmpty (text_content nd);
          sem = orEmpty (semantic (isotype_sig nd));
          emo = orEmpty (emotion (isotype_sig nd))
      in \<lparr>narrative_style = analyzeNarrativeStyle text,
          emotional_expression = analyzeEmotionalExpression text emo,
          temporal_orientation = analyzeTemporalOrientation text,
          self_reference = analyzeSelfReference text,
          complexity = analyzeComplexity text sem,
          authenticity = analyzeAuthenticity text,
          rhythm = analyzeRhythm text,
          reflection_depth = analyzeReflectionDepth text,
          expression_mode = analyzeExpressionMode text,
          uniqueness = calculateUniqueness text sem emo\<rparr>)"

section \<open>EmotiveArt: the noise field\<close>

text \<open>
  \<open>Math.random()\<close> is a sequence \<open>rnd\<close> of reals together with the position of the next
  draw; every function that draws returns the new position. \<open>generateNoiseTable(size)\<close>
  draws once per entry, so entry \<open>i\<close> uses the draw at \<open>pos + i\<close>.
\<close>

record emotive_art =
  noiseTable :: "real list"

definition noiseEntry :: "(nat \<Rightarrow> real) \<Rightarrow> nat \<Rightarrow> nat \<Rightarrow> real" where
  "noiseEntry rnd pos i =
     sin (real i * 0.1) * 0.4 + sin (real i * 0.3) * 0.3 + sin (real i * 0.7) * 0.2
       + rnd (pos + i) * 0.1"

definition generateNoiseTable :: "(nat \<Rightarrow> real) \<Rightarrow> nat \<Rightarrow> nat \<Rightarrow> real list \<times> nat" where
  "generateNoiseTable rnd pos sz = (map (noiseEntry rnd pos) [0..<sz], pos + sz)"

text \<open>The constructor: \<open>this.noiseTable = this.generateNoiseTable(512)\<close>.\<close>

definition newEmotiveArt :: "(nat \<Rightarrow> real) \<Rightarrow> nat \<Rightarrow> emotive_art \<times> nat" where
  "newEmotiveArt rnd pos =
     (let (table, pos') = generateNoiseTable rnd pos 512
      in (\<lparr>noiseTable = table\<rparr>, pos'))"




section \<open>IsotypeRenderer\<close>

text \<open>
  A renderer owns an \<open>EmotiveArt\<close> instance, and with it a noise table of its own.
\<close>

record isotype_renderer =
  emotiveArt :: emotive_art

definition calculateShapeDeformation :: "subjectivity \<Rightarrow> shape_deformation" where
  "calculateShapeDeformation s =
     (let narrativeStyle = narrative_style s;
          emotionalExpression = emotional_expression s;
          regularity =
            (if ns_type narrativeStyle = ''reflective'' then 0.6
             else if ns_type narrativeStyle = ''metaphorical'' then 0.5
             else if ns_type narrativeStyle = ''direct'' then 0.9
             else 0.8);
          deformation =
            (if ee_level emotionalExpression = ''intense'' then 0.25
             else if ee_level emotionalExpression = ''expressive'' then 0.18
             else if ee_level emotionalExpression = ''reserved'' then 0.05
             else 0.1)
      in \<lparr>sd_regularity = regularity,
          sd_deformation = deformation,
          sd_asymmetry = ee_intensity emotionalExpression * 0.15\<rparr>)"

definition calculateInternalPattern :: "subjectivity \<Rightarrow> internal_pattern" where
  "calculateInternalPattern s =
     (let cplx = complexity s;
          reflectionDepth = reflection_depth s;
          density =
            (if cx_level cplx = ''complex'' then 0.6
             else if cx_level cplx = ''moderate'' then 0.4
             else 0.2);
          patternType =
            (if reflectionDepth > 0.7 then ''layered''
             else if reflectionDepth > 0.4 then ''moderate''
             else ''simple'')
      in \<lparr>ip_density = density,
          ip_patternType = patternType,
          ip_complexity = cx_score cplx,
          ip_reflectionDepth = reflectionDepth\<rparr>)"

definition calculateEdgeCharacteristics :: "subjectivity \<Rightarrow> edge_characteristics" where
  "calculateEdgeCharacteristics s =
     (let auth = authenticity s;
          expressionMode = expression_mode s;
          edgeSharpness =
            (if au_style auth = ''formal'' then 0.8
             else if au_style auth = ''intimate'' then 0.3
             else 0.5);
          edgeRegularity =
            (if em_mode expressionMode = ''direct'' then 0.9 else 0.5)
      in \<lparr>ec_sharpness = edgeSharpness,
          ec_regularity = edgeRegularity,
          ec_thickness = 0.5 + au_score auth * 0.3\<rparr>)"

definition calculateColorAdjustment :: "subjectivity \<Rightarrow> color_adjustment" where
  "calculateColorAdjustment s =
     (let emotionalExpression = emotional_expression s;
          saturation = 1.0;
          hueShift = 0;
          opacity = 0.7 + ee_intensity emotionalExpression * 0.25;
          brightness = 1.0
      in \<lparr>ca_saturation = saturation,
          ca_hueShift = hueShift,
          ca_opacity = min 1 opacity,
          ca_brightness = min 1.1 brightness\<rparr>)"

text \<open>
  \<open>generateUnifiedShape(x, y, radius, signature)\<close> reads only
  \<open>signature.shapeDeformation\<close>; the loop \<open>for (i = 0; i < numPoints; i++) points.push(...)\<close>
  is the map over \<open>[0..<numPoints]\<close>.
\<close>

definition numPoints :: nat where
  "numPoints = 32"

definition shapeDistance :: "real \<Rightarrow> shape_deformation \<Rightarrow> real \<Rightarrow> real" where
  "shapeDistance radius deformation angle =
     (let regularityNoise = sin (angle * 4) * (1 - sd_regularity deformation) * 0.1;
          deformationNoise = sin (angle * 3 + pi / 4) * sd_deformation deformation;
          asymmetryNoise = sin (angle * 2) * sd_asymmetry deformation
      in radius * (1 + regularityNoise + deformationNoise + asymmetryNoise))"

definition shapePoint :: "real \<Rightarrow> real \<Rightarrow> real \<Rightarrow> shape_deformation \<Rightarrow> nat \<Rightarrow> shape_point" where
  "shapePoint x y radius deformation i =
     (let angle = (pi * 2 * real i) / real numPoints;
          distance = shapeDistance radius deformation angle
      in \<lparr>pt_x = x + cos angle * distance,
          pt_y = y + sin angle * distance,
          pt_angle = angle\<rparr>)"

definition generateUnifiedShape ::
  "real \<Rightarrow> real \<Rightarrow> real \<Rightarrow> signature \<Rightarrow> shape_point list" where
  "generateUnifiedShape x y radius sg =
     (let deformation = shapeDeformation sg
      in map (shapePoint x y radius deformation) [0..<numPoints])"

text \<open>
  \<open>calculateBaseSize(node)\<close>: \<open>a || b\<close> takes \<open>b\<close> when \<open>a\<close> is absent or 0.
\<close>

definition numberOr :: "real option \<Rightarrow> real \<Rightarrow> real" where
  "numberOr a b = (case a of None \<Rightarrow> b | Some v \<Rightarrow> if v = 0 then b else v)"

definition calculateBaseSize :: "node \<Rightarrow> real" where
  "calculateBaseSize nd =
     (let uniq = numberOr (uniqueness_score (isotype_sig nd)) 0.5;
          textLength = numberOr (text_length nd) 1000;
          normalizedLength = min 1 (textLength / 5000)
      in 10 + (uniq * 0.5 + normalizedLength * 0.5) * 15)"

definition generateIsotypeSignature :: "isotype_renderer \<Rightarrow> node \<Rightarrow> signature" where
  "generateIsotypeSignature this nd =
     (let subj = extractSubjectivity nd
      in \<lparr>baseShape = ''circle'',
          baseSize = calculateBaseSize nd,
          baseColor = (case color nd of None \<Rightarrow> ''#8B7FA8''
                       | Some col \<Rightarrow> if col = [] then ''#8B7FA8'' else col),
          sig_subjectivity = subj,
          shapeDeformation = calculateShapeDeformation subj,
          internalPattern = calculateInternalPattern subj,
          edgeCharacteristics = calculateEdgeCharacteristics subj,
          colorAdjustment = calculateColorAdjustment subj\<rparr>)"


section \<open>VisualizationApp: similarity graph\<close>

text \<open>
  \<open>this.nodes\<close> holds one fresh object per participant, so a node object is identified
  by its position in \<open>this.nodes\<close>, and a link stores the positions of its two end
  points.
\<close>

record app =
  app_nodes :: "node list"
  cfg_similarityThreshold :: real
  cfg_dimension :: string

record 'a link =
  source :: 'a
  target :: 'a
  similarity :: real
  dimension :: string

record candidate =
  cand_target :: nat
  cand_similarity :: real
  cand_targetIndex :: nat

datatype error = TypeError

text \<open>
  The loop of \<open>cosineSimilarity\<close>: \<open>for (i = 0; i < vec1.length; i += step)\<close> with
  \<open>step = vec1.length > 500 ? 2 : 1\<close>. The accumulator is
  \<open>(dotProduct, norm1, norm2)\<close>. Both vectors have the same length when the loop runs.
\<close>

function cosineLoop ::
  "real list \<Rightarrow> real list \<Rightarrow> nat \<Rightarrow> real \<times> real \<times> real \<Rightarrow> real \<times> real \<times> real" where
  "cosineLoop vec1 vec2 i (dotProduct, norm1, norm2) =
     (let step = (if length vec1 > 500 then 2 else 1)
      in if i < length vec1
         then (let v1 = vec1 ! i; v2 = vec2 ! i
               in cosineLoop vec1 vec2 (i + step)
                    (dotProduct + v1 * v2, norm1 + v1 * v1, norm2 + v2 * v2))
         else (dotProduct, norm1, norm2))"
  by pat_completeness auto
termination
  by (relation "measure (\<lambda>(vec1, vec2, i, acc). length vec1 - i)") auto

declare cosineLoop.simps [simp del]

definition cosineSimilarity :: "real list option \<Rightarrow> real list option \<Rightarrow> real" where
  "cosineSimilarity v w =
     (case (v, w) of
        (Some vec1, Some vec2) \<Rightarrow>
          if length vec1 \<noteq> length vec2 then 0
          else (let step = (if length vec1 > 500 then 2 else (1::nat));
                    (dotProduct, norm1, norm2) = cosineLoop vec1 vec2 0 (0, 0, 0);
                    (dotProduct, norm1, norm2) =
                      (if step > 1
                       then (dotProduct * real step, norm1 * real step, norm2 * real step)
                       else (dotProduct, norm1, norm2));
                    denominator = sqrt norm1 * sqrt norm2
                in if denominator = 0 then 0 else dotProduct / denominator)
      | _ \<Rightarrow> 0)"

text \<open>
  \<open>isotype_signature[dimension]\<close>: the vector stored under the key \<open>dimension\<close>. The
  keys that hold a vector are \<open>semantic\<close>, \<open>emotion\<close> and \<open>unified\<close>; any other name
  the dimension selector can take is no key of the object, and the lookup is
  \<open>undefined\<close>. \<open>a || b\<close> on vectors is \<open>orElse\<close>: an array, even an empty one, is
  truthy.
\<close>

definition sigLookup :: "isotype_signature \<Rightarrow> string \<Rightarrow> real list option" where
  "sigLookup sg dimn =
     (if dimn = ''semantic'' then semantic sg
      else if dimn = ''emotion'' then emotion sg
      else if dimn = ''unified'' then unified sg
      else None)"

definition orElse :: "'a option \<Rightarrow> 'a option \<Rightarrow> 'a option" where
  "orElse a b = (case a of Some v \<Rightarrow> Some v | None \<Rightarrow> b)"

text \<open>
  An array read \<open>nodes[j]\<close> is \<open>undefined\<close> out of range, and reading
  \<open>isotype_signature\<close> of \<open>undefined\<close> throws a \<open>TypeError\<close>.
\<close>

definition nodeAt :: "'a list \<Rightarrow> nat \<Rightarrow> 'a option" where
  "nodeAt ns j = (if j < length ns then Some (ns ! j) else None)"

definition calculateSimilarity :: "node option \<Rightarrow> node option \<Rightarrow> string \<Rightarrow> error + real" where
  "calculateSimilarity n1 n2 dimn =
     (case (n1, n2) of
        (Some node1, Some node2) \<Rightarrow>
          if dimn = ''multidimensional''
          then Inr (cosineSimilarity (unified (isotype_sig node1)) (unified (isotype_sig node2)))
          else Inr (cosineSimilarity
                      (orElse (sigLookup (isotype_sig node1) dimn) (semantic (isotype_sig node1)))
                      (orElse (sigLookup (isotype_sig node2) dimn) (semantic (isotype_sig node2))))
      | _ \<Rightarrow> Inl TypeError)"

text \<open>
  A JavaScript \<open>Set\<close> of indices, in insertion order (\<open>Array.from\<close> lists it so).
\<close>

definition setAdd :: "'a list \<Rightarrow> 'a \<Rightarrow> 'a list" where
  "setAdd s v = (if v \<in> set s then s else s @ [v])"

text \<open>
  \<open>Math.random()\<close> is a sequence \<open>rnd\<close> of reals together with the position of the next
  draw; every function that draws returns the new position. A draw lies in \<open>[0, 1)\<close>;
  the properties that depend on it say so.
\<close>

function randomLoop ::
  "(nat \<Rightarrow> real) \<Rightarrow> nat \<Rightarrow> nat \<Rightarrow> nat \<Rightarrow> int \<Rightarrow> nat \<Rightarrow> nat \<Rightarrow> nat list \<Rightarrow> nat list \<times> nat" where
  "randomLoop rnd n currentIndex sampleSize randomCount i pos indices =
     (if int i < randomCount \<and> length indices < sampleSize
      then (let randomIndex = nat \<lfloor>rnd pos * real n\<rfloor>
            in randomLoop rnd n currentIndex sampleSize randomCount (i + 1) (pos + 1)
                 (if randomIndex \<noteq> currentIndex then setAdd indices randomIndex else indices))
      else (indices, pos))"
  by pat_completeness auto
termination
  by (relation "measure (\<lambda>(rnd, n, c, s, randomCount, i, pos, ind). nat (randomCount - int i))")
     auto

declare randomLoop.simps [simp del]

definition windowIndices :: "nat \<Rightarrow> nat \<Rightarrow> nat list" where
  "windowIndices n currentIndex =
     (let windowSize = min 20 n;
          start = nat (max 0 (int currentIndex - int windowSize));
          endIdx = min n (currentIndex + windowSize)
      in fold (\<lambda>i indices. if i \<noteq> currentIndex then setAdd indices i else indices)
           [start..<endIdx] [])"

definition getSampleIndices ::
  "app \<Rightarrow> (nat \<Rightarrow> real) \<Rightarrow> nat \<Rightarrow> nat \<Rightarrow> nat \<Rightarrow> nat list \<times> nat" where
  "getSampleIndices this rnd pos currentIndex sampleSize =
     (let n = length (app_nodes this);
          indices = windowIndices n currentIndex;
          randomCount = int sampleSize - int (length indices)
      in randomLoop rnd n currentIndex sampleSize randomCount 0 pos indices)"

definition maxLinksPerNode :: "nat \<Rightarrow> int" where
  "maxLinksPerNode nodeCount =
     (if nodeCount \<le> 20 then min 10 (int nodeCount - 1)
      else if nodeCount \<le> 50 then 8
      else 5)"

definition sampleSizeFor :: "nat \<Rightarrow> nat" where
  "sampleSizeFor nodeCount =
     (if nodeCount \<le> 20 then nodeCount
      else if nodeCount \<le> 50 then min 30 nodeCount
      else min 50 nodeCount)"

text \<open>
  The key \<open>i < j ? `${i}-${j}` : `${j}-${i}`\<close> as the ordered pair of the two indices.
\<close>

definition linkKey :: "nat \<Rightarrow> nat \<Rightarrow> nat \<times> nat" where
  "linkKey i j = (if i < j then (i, j) else (j, i))"

text \<open>\<open>for (const j of sampleIndices)\<close>: collects the candidates of node \<open>i\<close>.\<close>

fun candidateLoop ::
  "app \<Rightarrow> (nat \<times> nat) list \<Rightarrow> nat \<Rightarrow> nat list \<Rightarrow> candidate list \<Rightarrow> error + candidate list" where
  "candidateLoop this linkSet i [] candidates = Inr candidates"
| "candidateLoop this linkSet i (j # js) candidates =
     (if i = j then candidateLoop this linkSet i js candidates
      else if linkKey i j \<in> set linkSet then candidateLoop this linkSet i js candidates
      else (case calculateSimilarity (nodeAt (app_nodes this) i) (nodeAt (app_nodes this) j)
                   (cfg_dimension this) of
              Inl e \<Rightarrow> Inl e
            | Inr sim \<Rightarrow>
                candidateLoop this linkSet i js
                  (if sim \<ge> cfg_similarityThreshold this
                   then candidates @ [\<lparr>cand_target = j, cand_similarity = sim,
                                       cand_targetIndex = j\<rparr>]
                   else candidates)))"

text \<open>
  \<open>candidates.sort((a, b) => b.similarity - a.similarity)\<close> is a stable sort by
  descending similarity; \<open>slice(0, m)\<close> counts a negative \<open>m\<close> from the end.
\<close>

definition sortCandidates :: "candidate list \<Rightarrow> candidate list" where
  "sortCandidates candidates = sort_key (\<lambda>c. - cand_similarity c) candidates"

definition slice0 :: "'a list \<Rightarrow> int \<Rightarrow> 'a list" where
  "slice0 xs m = (if m < 0 then take (nat (int (length xs) + m)) xs else take (nat m) xs)"

text \<open>\<open>topCandidates.forEach\<close>: the state is \<open>(links, linkSet)\<close>.\<close>

fun addLinks ::
  "app \<Rightarrow> nat \<Rightarrow> candidate list \<Rightarrow> nat link list \<times> (nat \<times> nat) list
     \<Rightarrow> nat link list \<times> (nat \<times> nat) list" where
  "addLinks this i [] st = st"
| "addLinks this i (c # cs) (links, linkSet) =
     (let key = linkKey i (cand_targetIndex c)
      in if key \<notin> set linkSet
         then addLinks this i cs
                (links @ [\<lparr>source = i, target = cand_target c,
                           similarity = cand_similarity c,
                           dimension = cfg_dimension this\<rparr>],
                 setAdd linkSet key)
         else addLinks this i cs (links, linkSet))"

text \<open>
  The outer loop \<open>for (i = 0; i < this.nodes.length; i++)\<close>; the state is
  \<open>(links, linkSet, pos)\<close>.
\<close>

function linkLoop ::
  "app \<Rightarrow> (nat \<Rightarrow> real) \<Rightarrow> int \<Rightarrow> nat \<Rightarrow> nat \<Rightarrow> nat link list \<times> (nat \<times> nat) list \<times> nat
     \<Rightarrow> error + nat link list" where
  "linkLoop this rnd maxLinks sampleSize i (links, linkSet, pos) =
     (if i < length (app_nodes this)
      then (let (sampleIndices, pos') = getSampleIndices this rnd pos i sampleSize
            in case candidateLoop this linkSet i sampleIndices [] of
                 Inl e \<Rightarrow> Inl e
               | Inr candidates \<Rightarrow>
                   (let topCandidates = slice0 (sortCandidates candidates) maxLinks;
                        (links', linkSet') = addLinks this i topCandidates (links, linkSet)
                    in linkLoop this rnd maxLinks sampleSize (i + 1) (links', linkSet', pos')))
      else Inr links)"
  by pat_completeness auto
termination
  by (relation "measure (\<lambda>(this, rnd, m, s, i, st). length (app_nodes this) - i)") auto

declare linkLoop.simps [simp del]

definition generateLinksOptimized :: "app \<Rightarrow> (nat \<Rightarrow> real) \<Rightarrow> error + nat link list" where
  "generateLinksOptimized this rnd =
     (let nodeCount = length (app_nodes this)
      in linkLoop this rnd (maxLinksPerNode nodeCount) (sampleSizeFor nodeCount) 0 ([], [], 0))"


text \<open>
  Notions used to state the properties of the returned edge list: the key of an edge, the
  number of edges a subject is the source of, the number of edges it is incident to, and
  the invariant of the outer loop of \<open>generateLinksOptimized\<close> before iteration \<open>i\<close>.
\<close>

definition linkKeyOf :: "nat link \<Rightarrow> nat \<times> nat" where
  "linkKeyOf l = linkKey (source l) (target l)"

definition sourceCount :: "nat link list \<Rightarrow> nat \<Rightarrow> nat" where
  "sourceCount links s = length (filter (\<lambda>l. source l = s) links)"

definition linkInvariant :: "app \<Rightarrow> int \<Rightarrow> nat \<Rightarrow> nat link list \<Rightarrow> (nat \<times> nat) list \<Rightarrow> bool" where
  "linkInvariant this maxLinks i links linkSet \<longleftrightarrow>
     set linkSet = linkKeyOf ` set links \<and>
     distinct (map linkKeyOf links) \<and>
     (\<forall>l \<in> set links. source l \<noteq> target l \<and>
        similarity l \<ge> cfg_similarityThreshold this \<and>
        source l < i \<and> target l < length (app_nodes this)) \<and>
     (\<forall>s < length (app_nodes this). int (sourceCount links s) \<le> maxLinks)"

definition goodCandidate :: "app \<Rightarrow> (nat \<times> nat) list \<Rightarrow> nat \<Rightarrow> candidate \<Rightarrow> bool" where
  "goodCandidate this linkSet i c \<longleftrightarrow>
     cand_target c = cand_targetIndex c \<and> cand_targetIndex c \<noteq> i \<and>
     linkKey i (cand_targetIndex c) \<notin> set linkSet \<and>
     cand_similarity c \<ge> cfg_similarityThreshold this \<and>
     cand_targetIndex c < length (app_nodes this)"

definition incidentCount :: "nat link list \<Rightarrow> nat \<Rightarrow> nat" where
  "incidentCount links s = length (filter (\<lambda>l. source l = s \<or> target l = s) links)"

section \<open>ClusterFusion: cluster detection\<close>

text \<open>
  \<open>detectClusters(nodes, links, similarityThreshold)\<close>. Node objects are compared by
  identity, so a node is a reference of any type \<open>'a\<close>; \<open>visited\<close> is a set of indices,
  \<open>queue\<close> a list of indices, \<open>cluster\<close> a list of references.
\<close>

text \<open>\<open>nodes.forEach((node, index) => nodeIndexMap.set(node, index))\<close>\<close>

definition mapSet :: "nat \<times> 'a \<Rightarrow> ('a \<Rightarrow> nat option) \<Rightarrow> ('a \<Rightarrow> nat option)" where
  "mapSet p m = (case p of (index, node) \<Rightarrow> m(node \<mapsto> index))"

definition nodeIndexMap :: "'a list \<Rightarrow> 'a \<Rightarrow> nat option" where
  "nodeIndexMap nodes = fold mapSet (enumerate 0 nodes) Map.empty"

text \<open>
  The body of \<open>links.forEach\<close> inside the search, for the node being expanded; the state
  is \<open>(cluster, queue, visited)\<close>.
\<close>

definition linkStep ::
  "'a list \<Rightarrow> real \<Rightarrow> 'a option \<Rightarrow> 'a link \<Rightarrow> 'a list \<times> nat list \<times> nat set
     \<Rightarrow> 'a list \<times> nat list \<times> nat set" where
  "linkStep nodes similarityThreshold currentNode lnk st =
     (case st of (cluster, queue, visited) \<Rightarrow>
        (let neighborNode =
               (if Some (source lnk) = currentNode then Some (target lnk)
                else if Some (target lnk) = currentNode then Some (source lnk)
                else None)
         in case neighborNode of
              None \<Rightarrow> st
            | Some nb \<Rightarrow>
                (case nodeIndexMap nodes nb of
                   None \<Rightarrow> st
                 | Some neighborIndex \<Rightarrow>
                     if neighborIndex \<notin> visited \<and> similarity lnk \<ge> similarityThreshold
                     then (cluster @ [nb], queue @ [neighborIndex], insert neighborIndex visited)
                     else st)))"

lemma mapSet_pair: "mapSet (index, node) m = m(node \<mapsto> index)"
  by (simp add: mapSet_def)

lemma nodeIndexMap_fold:
  "fold mapSet (enumerate k xs) m0 x = Some i \<Longrightarrow>
   (k \<le> i \<and> i < k + length xs \<and> xs ! (i - k) = x) \<or> (m0 x = Some i \<and> x \<notin> set xs)"
proof (induction xs arbitrary: k m0)
  case Nil
  then show ?case by simp
next
  case (Cons y ys)
  from Cons.prems have
    "fold mapSet (enumerate (Suc k) ys) (m0(y \<mapsto> k)) x = Some i"
    by (simp add: mapSet_pair)
  from Cons.IH[OF this] show ?case
    by (auto simp add: nth_Cons' split: if_splits)
qed

lemma nodeIndexMap_Some:
  "nodeIndexMap nodes x = Some i \<Longrightarrow> i < length nodes \<and> nodes ! i = x"
  using nodeIndexMap_fold[of 0 nodes Map.empty x i] by (simp add: nodeIndexMap_def)

lemma linkStep_cases:
  "linkStep nodes thr cur lnk (cluster, queue, visited) = (cluster, queue, visited) \<or>
   (\<exists>nb j. nodeIndexMap nodes nb = Some j \<and> j \<notin> visited \<and>
      linkStep nodes thr cur lnk (cluster, queue, visited)
        = (cluster @ [nb], queue @ [j], insert j visited))"
  by (auto simp add: linkStep_def Let_def split: option.splits)

lemma linkFold_props:
  "fold (linkStep nodes thr cur) links (cluster, queue, visited) = (cluster', queue', visited') \<Longrightarrow>
   \<exists>added. queue' = queue @ added \<and> visited' = visited \<union> set added \<and> distinct added \<and>
     set added \<inter> visited = {} \<and> (\<forall>j \<in> set added. j < length nodes) \<and>
     cluster' = cluster @ map (\<lambda>j. nodes ! j) added"
proof (induction links arbitrary: cluster queue visited)
  case Nil
  then show ?case by simp
next
  case (Cons lnk links)
  from linkStep_cases[of nodes thr cur lnk cluster queue visited]
  show ?case
  proof
    assume "linkStep nodes thr cur lnk (cluster, queue, visited) = (cluster, queue, visited)"
    with Cons.prems have "fold (linkStep nodes thr cur) links (cluster, queue, visited) = (cluster', queue', visited')"
      by simp
    from Cons.IH[OF this] show ?thesis .
  next
    assume "\<exists>nb j. nodeIndexMap nodes nb = Some j \<and> j \<notin> visited \<and>
      linkStep nodes thr cur lnk (cluster, queue, visited)
        = (cluster @ [nb], queue @ [j], insert j visited)"
    then obtain nb j where m: "nodeIndexMap nodes nb = Some j" and jv: "j \<notin> visited"
      and st: "linkStep nodes thr cur lnk (cluster, queue, visited)
        = (cluster @ [nb], queue @ [j], insert j visited)" by blast
    from Cons.prems st have
      "fold (linkStep nodes thr cur) links (cluster @ [nb], queue @ [j], insert j visited) = (cluster', queue', visited')"
      by simp
    from Cons.IH[OF this] obtain added where a:
      "queue' = (queue @ [j]) @ added" "visited' = insert j visited \<union> set added" "distinct added"
      "set added \<inter> insert j visited = {}" "\<forall>j \<in> set added. j < length nodes"
      "cluster' = (cluster @ [nb]) @ map (\<lambda>j. nodes ! j) added" by blast
    from nodeIndexMap_Some[OF m] have jn: "j < length nodes" "nodes ! j = nb" by auto
    show ?thesis
      by (rule exI[of _ "j # added"]) (use a jv jn in auto)
  qed
qed

function bfsLoop ::
  "'a list \<Rightarrow> 'a link list \<Rightarrow> real \<Rightarrow> 'a list \<times> nat list \<times> nat set \<Rightarrow> 'a list \<times> nat set" where
  "bfsLoop nodes links similarityThreshold (cluster, queue, visited) =
     (case queue of
        [] \<Rightarrow> (cluster, visited)
      | currentIndex # rest \<Rightarrow>
          bfsLoop nodes links similarityThreshold
            (fold (linkStep nodes similarityThreshold (nodeAt nodes currentIndex)) links
               (cluster, rest, visited)))"
  by pat_completeness auto
termination
proof (relation "measure (\<lambda>(nodes, links, thr, (cluster, queue, visited)).
                    2 * card ({..<length nodes} - visited) + length queue)", goal_cases)
  case 1
  show ?case by simp
next
  case (2 nodes links thr cluster queue visited currentIndex rest)
  obtain cluster' queue' visited' where
    f: "fold (linkStep nodes thr (nodeAt nodes currentIndex)) links (cluster, rest, visited)
          = (cluster', queue', visited')"
    by (metis prod_cases3)
  from linkFold_props[OF f] obtain added where a:
    "queue' = rest @ added" "visited' = visited \<union> set added" "distinct added"
    "set added \<inter> visited = {}" "\<forall>j \<in> set added. j < length nodes" by blast
  have sub: "set added \<subseteq> {..<length nodes} - visited" using a(4,5) by auto
  have "{..<length nodes} - visited' = ({..<length nodes} - visited) - set added"
    using a(2) by auto
  then have "card ({..<length nodes} - visited') = card ({..<length nodes} - visited) - card (set added)"
    using sub by (simp add: card_Diff_subset)
  moreover have "card (set added) = length added" using a(3) by (simp add: distinct_card)
  moreover have "length added \<le> card ({..<length nodes} - visited)"
    using sub a(3) by (metis card_mono distinct_card finite_Diff finite_lessThan)
  ultimately show ?case using 2 a(1) f by simp
qed

declare bfsLoop.simps [simp del]

text \<open>
  The body of the outer \<open>nodes.forEach((node, index) => ...)\<close>; the state is
  \<open>(clusters, visited)\<close>.
\<close>

definition clusterStep ::
  "'a list \<Rightarrow> 'a link list \<Rightarrow> real \<Rightarrow> nat \<times> 'a \<Rightarrow> 'a list list \<times> nat set
     \<Rightarrow> 'a list list \<times> nat set" where
  "clusterStep nodes links similarityThreshold p st =
     (case (p, st) of ((index, node), (clusters, visited)) \<Rightarrow>
        if index \<in> visited then (clusters, visited)
        else (let (cluster, visited') =
                    bfsLoop nodes links similarityThreshold ([node], [index], insert index visited)
              in (if length cluster \<ge> 2 then clusters @ [cluster] else clusters, visited')))"

definition detectClusters :: "'a list \<Rightarrow> 'a link list \<Rightarrow> real \<Rightarrow> 'a list list" where
  "detectClusters nodes links similarityThreshold =
     fst (fold (clusterStep nodes links similarityThreshold) (enumerate 0 nodes) ([], {}))"


text \<open>
  Notions used to state and prove the properties of \<open>detectClusters\<close>: two subjects are
  adjacent when a link of similarity at least the threshold joins them; an index is closed
  when the indices of all subjects adjacent to its subject are visited; \<open>bfsInv\<close> is the
  invariant of the search started at index \<open>s\<close> with \<open>V0\<close> visited before, \<open>outerInv\<close>
  the invariant of the loop over the nodes.
\<close>

definition adjacent :: "'a link list \<Rightarrow> real \<Rightarrow> 'a \<Rightarrow> 'a \<Rightarrow> bool" where
  "adjacent links thr x w \<longleftrightarrow>
     (\<exists>l \<in> set links. similarity l \<ge> thr \<and>
        ((source l = x \<and> target l = w) \<or> (target l = x \<and> source l = w)))"

definition closedAt :: "'a list \<Rightarrow> 'a link list \<Rightarrow> real \<Rightarrow> nat set \<Rightarrow> nat \<Rightarrow> bool" where
  "closedAt nodes links thr visited k \<longleftrightarrow>
     (\<forall>w j. adjacent links thr (nodes ! k) w \<and> nodeIndexMap nodes w = Some j \<longrightarrow> j \<in> visited)"

definition linkedWith :: "'a link list \<Rightarrow> real \<Rightarrow> 'a \<Rightarrow> 'a \<Rightarrow> bool" where
  "linkedWith links sim x y \<longleftrightarrow>
     (\<exists>l \<in> set links. similarity l = sim \<and>
        ((source l = x \<and> target l = y) \<or> (source l = y \<and> target l = x)))"

definition bfsInv ::
  "'a list \<Rightarrow> 'a link list \<Rightarrow> real \<Rightarrow> nat set \<Rightarrow> nat \<Rightarrow> 'a list \<times> nat list \<times> nat set \<Rightarrow> bool" where
  "bfsInv nodes links thr V0 s st \<longleftrightarrow>
     (case st of (cluster, queue, visited) \<Rightarrow>
        V0 \<subseteq> visited \<and> s \<notin> V0 \<and> visited \<subseteq> {..<length nodes} \<and>
        set queue \<subseteq> visited - V0 \<and>
        (\<forall>k \<in> visited. k \<in> set queue \<or> closedAt nodes links thr visited k) \<and>
        (\<exists>idxs. cluster = map (\<lambda>j. nodes ! j) (s # idxs) \<and> distinct (s # idxs) \<and>
            set (s # idxs) = visited - V0 \<and>
            (\<forall>j \<in> set idxs. \<forall>k \<in> V0. nodes ! k \<noteq> nodes ! j)) \<and>
        ((\<exists>k \<in> V0. nodes ! k = nodes ! s) \<longrightarrow> length cluster = 1))"

definition outerInv ::
  "'a list \<Rightarrow> 'a link list \<Rightarrow> real \<Rightarrow> 'a list list \<times> nat set \<Rightarrow> bool" where
  "outerInv nodes links thr st \<longleftrightarrow>
     (case st of (clusters, visited) \<Rightarrow>
        visited \<subseteq> {..<length nodes} \<and>
        (\<forall>k \<in> visited. closedAt nodes links thr visited k) \<and>
        (\<forall>c \<in> set clusters. 2 \<le> length c \<and> (\<forall>x \<in> set c. \<exists>k \<in> visited. nodes ! k = x)) \<and>
        (\<forall>p q. p < q \<and> q < length clusters \<longrightarrow> set (clusters ! p) \<inter> set (clusters ! q) = {}))"

section \<open>Example inputs\<close>

definition exampleSignature :: signature where
  "exampleSignature =
     \<lparr>baseShape = ''circle'', baseSize = 10, baseColor = ''#8B7FA8'',
      sig_subjectivity =
        \<lparr>narrative_style = \<lparr>ns_type = ''conversational'', ns_score = 0.5, ns_distribution = None\<rparr>,
         emotional_expression = \<lparr>ee_level = ''moderate'', ee_intensity = 0.5\<rparr>,
         temporal_orientation =
           \<lparr>to_orientation = ''mixed'', to_score = 0.33, to_distribution = None\<rparr>,
         self_reference = \<lparr>sr_level = ''medium'', sr_score = 0.5\<rparr>,
         complexity = \<lparr>cx_level = ''moderate'', cx_score = 0.5\<rparr>,
         authenticity = \<lparr>au_style = ''casual'', au_score = 0.5, au_distribution = None\<rparr>,
         rhythm = 0.5, reflection_depth = 0.5,
         expression_mode = \<lparr>em_mode = ''direct'', em_score = 0.5\<rparr>,
         uniqueness = 0.35\<rparr>,
      shapeDeformation = \<lparr>sd_regularity = 0.8, sd_deformation = 0.1, sd_asymmetry = 0.075\<rparr>,
      internalPattern = \<lparr>ip_density = 0.4, ip_patternType = ''moderate'', ip_complexity = 0.5,
                         ip_reflectionDepth = 0.5\<rparr>,
      edgeCharacteristics = \<lparr>ec_sharpness = 0.5, ec_regularity = 0.9, ec_thickness = 0.65\<rparr>,
      colorAdjustment = \<lparr>ca_saturation = 1, ca_hueShift = 0, ca_opacity = 0.825,
                         ca_brightness = 1\<rparr>\<rparr>"


definition exampleNode :: node where
  "exampleNode =
     \<lparr>node_id = ''P1'', text_content = None,
      isotype_sig = \<lparr>semantic = Some [1], emotion = None, unified = Some [1],
                      uniqueness_score = None\<rparr>,
      text_length = None, color = None\<rparr>"

definition exampleApp :: "nat \<Rightarrow> app" where
  "exampleApp n =
     \<lparr>app_nodes = replicate n exampleNode, cfg_similarityThreshold = 0.95,
      cfg_dimension = ''multidimensional''\<rparr>"

definition zeroDraws :: "nat \<Rightarrow> real" where
  "zeroDraws k = 0"


definition emptyNode :: node where
  "emptyNode =
     \<lparr>node_id = ''P0'', text_content = Some [],
      isotype_sig = \<lparr>semantic = Some [], emotion = Some [], unified = None,
                      uniqueness_score = None\<rparr>,
      text_length = None, color = None\<rparr>"


definition storyNode :: node where
  "storyNode =
     \<lparr>node_id = ''P7'', text_content = Some ''I love this!!! so happy'',
      isotype_sig = \<lparr>semantic = Some [0.1, 0.3], emotion = Some [0.2, 0.9], unified = None,
                      uniqueness_score = Some 0.6\<rparr>,
      text_length = Some 23, color = Some ''#FFBE0B''\<rparr>"

definition exampleRenderer :: isotype_renderer where
  "exampleRenderer = \<lparr>emotiveArt = fst (newEmotiveArt zeroDraws 0)\<rparr>"



text \<open>
  The square root at 0 and 1, as a code equation: \<open>code_simp\<close> needs it to evaluate
  \<open>cosineSimilarity\<close> on the example nodes.
\<close>

lemma sqrt_unit_code [code]: "sqrt x = (if x = 0 then 0 else if x = 1 then 1 else sqrt x)"
  by simp

section \<open>Glyph outline and colour policy\<close>

lemma generateUnifiedShape_length:
  "length (generateUnifiedShape x y radius sg) = 32"
  by (simp add: generateUnifiedShape_def numPoints_def)

lemma generateUnifiedShape_nth:
  "i < 32 \<Longrightarrow>
   generateUnifiedShape x y radius sg ! i = shapePoint x y radius (shapeDeformation sg) i"
  by (simp add: generateUnifiedShape_def numPoints_def)

lemma shapePoint_angle: "pt_angle (shapePoint x y radius d i) = 2 * pi * real i / 32"
  by (simp add: shapePoint_def numPoints_def Let_def mult.commute)

lemma sin_scaled_lower: "0 \<le> a \<Longrightarrow> - a \<le> sin t * (a::real)"
proof -
  assume a: "0 \<le> a"
  have "- 1 \<le> sin t" by simp
  then have "- 1 * a \<le> sin t * a" using a by (rule mult_right_mono)
  then show ?thesis by simp
qed

lemma shapeDistance_formula:
  "shapeDistance radius d t =
     radius * (1 + sin (4 * t) * (1 - sd_regularity d) * 0.1
                 + sin (3 * t + pi / 4) * sd_deformation d + sin (2 * t) * sd_asymmetry d)"
  by (simp add: shapeDistance_def Let_def mult.commute)

lemma shapeDistance_nonneg:
  assumes "0 \<le> radius" "sd_regularity d \<le> 1" "0 \<le> sd_deformation d" "0 \<le> sd_asymmetry d"
    and "(1 - sd_regularity d) * 0.1 + sd_deformation d + sd_asymmetry d \<le> 1"
  shows "0 \<le> shapeDistance radius d t"
proof -
  define a where "a = (1 - sd_regularity d) * 0.1"
  have a: "0 \<le> a" using assms(2) by (simp add: a_def)
  have l1: "- a \<le> sin (4 * t) * a" using a by (rule sin_scaled_lower)
  have l2: "- sd_deformation d \<le> sin (3 * t + pi / 4) * sd_deformation d"
    using assms(3) by (rule sin_scaled_lower)
  have l3: "- sd_asymmetry d \<le> sin (2 * t) * sd_asymmetry d"
    using assms(4) by (rule sin_scaled_lower)
  have s: "a + sd_deformation d + sd_asymmetry d \<le> 1" using assms(5) by (simp add: a_def)
  have e: "sin (4 * t) * (1 - sd_regularity d) * 0.1 = sin (4 * t) * a"
    by (simp add: a_def)
  have "0 \<le> 1 + sin (4 * t) * a + sin (3 * t + pi / 4) * sd_deformation d
               + sin (2 * t) * sd_asymmetry d"
    using l1 l2 l3 s by linarith
  then have "0 \<le> 1 + sin (4 * t) * (1 - sd_regularity d) * 0.1
                 + sin (3 * t + pi / 4) * sd_deformation d + sin (2 * t) * sd_asymmetry d"
    by (simp only: e)
  then show ?thesis unfolding shapeDistance_formula using assms(1) by (rule mult_nonneg_nonneg[rotated])
qed

text \<open>
  Claim C6. For every centre \<open>(x, y)\<close>, radius and signature, \<open>generateUnifiedShape\<close>
  returns exactly 32 points. Point \<open>i\<close> carries the angle \<open>\<theta> = 2\<pi>i/32\<close> and
  lies at \<open>(x + cos \<theta> \<sqdot> dist, y + sin \<theta> \<sqdot> dist)\<close>, where \<open>dist\<close> is
  \<open>radius \<sqdot> (1 + sin(4\<theta>)(1 - regularity)0.1 + sin(3\<theta> + \<pi>/4) deformation
  + sin(2\<theta>) asymmetry)\<close>, the value the source calls \<open>distance\<close>; its Euclidean
  distance from the centre is the absolute value of \<open>dist\<close>. The angles are strictly
  increasing along the list, start at 0 and end below \<open>2\<pi>\<close>. When the radius is not
  negative and the three amplitudes \<open>(1 - regularity) 0.1\<close>, \<open>deformation\<close> and
  \<open>asymmetry\<close> are not negative and sum to at most 1, \<open>dist\<close> is not negative and is the
  Euclidean distance itself; the shape deformation computed from a profile with intensity
  in [0, 1] is of this kind.
\<close>

theorem generateUnifiedShape_outline:
  "length (generateUnifiedShape x y radius sg) = 32 \<and>
   (\<forall>i<32. let p = generateUnifiedShape x y radius sg ! i;
                 d = shapeDeformation sg;
                 \<theta> = 2 * pi * real i / 32;
                 dist = radius * (1 + sin (4 * \<theta>) * (1 - sd_regularity d) * 0.1
                                   + sin (3 * \<theta> + pi / 4) * sd_deformation d
                                   + sin (2 * \<theta>) * sd_asymmetry d)
             in pt_angle p = \<theta> \<and> pt_x p = x + cos \<theta> * dist \<and> pt_y p = y + sin \<theta> * dist
                \<and> sqrt ((pt_x p - x)\<^sup>2 + (pt_y p - y)\<^sup>2) = \<bar>dist\<bar>) \<and>
   (\<forall>i j. i < j \<and> j < 32 \<longrightarrow>
       pt_angle (generateUnifiedShape x y radius sg ! i)
         < pt_angle (generateUnifiedShape x y radius sg ! j)) \<and>
   pt_angle (generateUnifiedShape x y radius sg ! 0) = 0 \<and>
   pt_angle (generateUnifiedShape x y radius sg ! 31) < 2 * pi \<and>
   (0 \<le> radius \<and> sd_regularity (shapeDeformation sg) \<le> 1 \<and>
    0 \<le> sd_deformation (shapeDeformation sg) \<and> 0 \<le> sd_asymmetry (shapeDeformation sg) \<and>
    (1 - sd_regularity (shapeDeformation sg)) * 0.1 + sd_deformation (shapeDeformation sg)
      + sd_asymmetry (shapeDeformation sg) \<le> 1 \<longrightarrow>
      (\<forall>i<32. let p = generateUnifiedShape x y radius sg ! i;
                    d = shapeDeformation sg;
                    \<theta> = 2 * pi * real i / 32
                in sqrt ((pt_x p - x)\<^sup>2 + (pt_y p - y)\<^sup>2)
                   = radius * (1 + sin (4 * \<theta>) * (1 - sd_regularity d) * 0.1
                                 + sin (3 * \<theta> + pi / 4) * sd_deformation d
                                 + sin (2 * \<theta>) * sd_asymmetry d))) \<and>
   (0 \<le> ee_intensity (emotional_expression s) \<and> ee_intensity (emotional_expression s) \<le> 1
      \<longrightarrow> sd_regularity (calculateShapeDeformation s) \<le> 1 \<and>
           0 \<le> sd_deformation (calculateShapeDeformation s) \<and>
           0 \<le> sd_asymmetry (calculateShapeDeformation s) \<and>
           (1 - sd_regularity (calculateShapeDeformation s)) * 0.1
             + sd_deformation (calculateShapeDeformation s)
             + sd_asymmetry (calculateShapeDeformation s) \<le> 1)"
proof (intro conjI allI impI)
  show "length (generateUnifiedShape x y radius sg) = 32"
    by (rule generateUnifiedShape_length)
next
  fix i :: nat
  assume c: "0 \<le> radius \<and> sd_regularity (shapeDeformation sg) \<le> 1 \<and>
    0 \<le> sd_deformation (shapeDeformation sg) \<and> 0 \<le> sd_asymmetry (shapeDeformation sg) \<and>
    (1 - sd_regularity (shapeDeformation sg)) * 0.1 + sd_deformation (shapeDeformation sg)
      + sd_asymmetry (shapeDeformation sg) \<le> 1"
    and i: "i < 32"
  define d where "d = shapeDeformation sg"
  define \<theta> where "\<theta> = 2 * pi * real i / 32"
  have a: "(pi * 2 * real i) / real numPoints = \<theta>"
    by (simp add: \<theta>_def numPoints_def mult.commute)
  have nn: "0 \<le> shapeDistance radius d \<theta>"
    using c unfolding d_def by (intro shapeDistance_nonneg) simp_all
  have p: "generateUnifiedShape x y radius sg ! i =
           \<lparr>pt_x = x + cos \<theta> * shapeDistance radius d \<theta>,
            pt_y = y + sin \<theta> * shapeDistance radius d \<theta>, pt_angle = \<theta>\<rparr>"
    using i by (simp add: generateUnifiedShape_nth shapePoint_def Let_def a d_def[symmetric])
  have "(cos \<theta> * shapeDistance radius d \<theta>)\<^sup>2 + (sin \<theta> * shapeDistance radius d \<theta>)\<^sup>2
          = (shapeDistance radius d \<theta>)\<^sup>2 * ((sin \<theta>)\<^sup>2 + (cos \<theta>)\<^sup>2)"
    by algebra
  then have e: "sqrt ((cos \<theta> * shapeDistance radius d \<theta>)\<^sup>2
                       + (sin \<theta> * shapeDistance radius d \<theta>)\<^sup>2)
                  = shapeDistance radius d \<theta>"
    using nn by simp
  show "let p = generateUnifiedShape x y radius sg ! i;
                    d = shapeDeformation sg;
                    \<theta> = 2 * pi * real i / 32
                in sqrt ((pt_x p - x)\<^sup>2 + (pt_y p - y)\<^sup>2)
                   = radius * (1 + sin (4 * \<theta>) * (1 - sd_regularity d) * 0.1
                                 + sin (3 * \<theta> + pi / 4) * sd_deformation d
                                 + sin (2 * \<theta>) * sd_asymmetry d)"
    unfolding Let_def d_def[symmetric] \<theta>_def[symmetric] p
      shapeDistance_formula[symmetric] using e by simp
next
  assume h: "0 \<le> ee_intensity (emotional_expression s) \<and> ee_intensity (emotional_expression s) \<le> 1"
  show "sd_regularity (calculateShapeDeformation s) \<le> 1"
    by (simp add: calculateShapeDeformation_def Let_def)
  show "0 \<le> sd_deformation (calculateShapeDeformation s)"
    by (simp add: calculateShapeDeformation_def Let_def)
  show "0 \<le> sd_asymmetry (calculateShapeDeformation s)"
    using h by (simp add: calculateShapeDeformation_def Let_def)
  show "(1 - sd_regularity (calculateShapeDeformation s)) * 0.1
             + sd_deformation (calculateShapeDeformation s)
             + sd_asymmetry (calculateShapeDeformation s) \<le> 1"
    using h by (simp add: calculateShapeDeformation_def Let_def)
next
  fix i :: nat assume i: "i < 32"
  define d where "d = shapeDeformation sg"
  define \<theta> where "\<theta> = 2 * pi * real i / 32"
  define dist where "dist = radius * (1 + sin (4 * \<theta>) * (1 - sd_regularity d) * 0.1
                                   + sin (3 * \<theta> + pi / 4) * sd_deformation d
                                   + sin (2 * \<theta>) * sd_asymmetry d)"
  have a: "(pi * 2 * real i) / real numPoints = \<theta>"
    by (simp add: \<theta>_def numPoints_def mult.commute)
  have sd: "shapeDistance radius d \<theta> = dist"
    by (simp add: shapeDistance_def dist_def Let_def mult.commute)
  have p: "generateUnifiedShape x y radius sg ! i =
           \<lparr>pt_x = x + cos \<theta> * dist, pt_y = y + sin \<theta> * dist, pt_angle = \<theta>\<rparr>"
    using i by (simp add: generateUnifiedShape_nth shapePoint_def Let_def a sd d_def[symmetric])
  have "(cos \<theta> * dist)\<^sup>2 + (sin \<theta> * dist)\<^sup>2 = dist\<^sup>2 * ((sin \<theta>)\<^sup>2 + (cos \<theta>)\<^sup>2)"
    by algebra
  then have e: "sqrt ((cos \<theta> * dist)\<^sup>2 + (sin \<theta> * dist)\<^sup>2) = \<bar>dist\<bar>"
    by simp
  show "let p = generateUnifiedShape x y radius sg ! i;
                 d = shapeDeformation sg;
                 \<theta> = 2 * pi * real i / 32;
                 dist = radius * (1 + sin (4 * \<theta>) * (1 - sd_regularity d) * 0.1
                                   + sin (3 * \<theta> + pi / 4) * sd_deformation d
                                   + sin (2 * \<theta>) * sd_asymmetry d)
             in pt_angle p = \<theta> \<and> pt_x p = x + cos \<theta> * dist \<and> pt_y p = y + sin \<theta> * dist
                \<and> sqrt ((pt_x p - x)\<^sup>2 + (pt_y p - y)\<^sup>2) = \<bar>dist\<bar>"
    unfolding Let_def d_def[symmetric] \<theta>_def[symmetric] dist_def[symmetric] p using e by simp
next
  fix i j :: nat assume "i < j \<and> j < 32"
  then show "pt_angle (generateUnifiedShape x y radius sg ! i)
               < pt_angle (generateUnifiedShape x y radius sg ! j)"
    by (simp add: generateUnifiedShape_nth shapePoint_angle)
next
  show "pt_angle (generateUnifiedShape x y radius sg ! 0) = 0"
    by (simp add: generateUnifiedShape_nth shapePoint_angle)
next
  show "pt_angle (generateUnifiedShape x y radius sg ! 31) < 2 * pi"
    by (simp add: generateUnifiedShape_nth shapePoint_angle)
qed


theorem generateUnifiedShape_outline_witness:
  "(0::nat) < 32 \<and> (0::nat) < 1 \<and> (1::nat) < 32 \<and>
   length (generateUnifiedShape 100 50 10 exampleSignature) = 32 \<and>
   pt_angle (generateUnifiedShape 100 50 10 exampleSignature ! 0) = 0 \<and>
   pt_y (generateUnifiedShape 100 50 10 exampleSignature ! 0) = 50 \<and>
   pt_angle (generateUnifiedShape 100 50 10 exampleSignature ! 0)
     < pt_angle (generateUnifiedShape 100 50 10 exampleSignature ! 1)"
proof -
  note t = generateUnifiedShape_outline [of 100 50 10 exampleSignature]
  from t have a: "\<forall>i<32. let p = generateUnifiedShape 100 50 10 exampleSignature ! i;
                 d = shapeDeformation exampleSignature;
                 \<theta> = 2 * pi * real i / 32;
                 dist = 10 * (1 + sin (4 * \<theta>) * (1 - sd_regularity d) * 0.1
                                   + sin (3 * \<theta> + pi / 4) * sd_deformation d
                                   + sin (2 * \<theta>) * sd_asymmetry d)
             in pt_angle p = \<theta> \<and> pt_x p = 100 + cos \<theta> * dist \<and> pt_y p = 50 + sin \<theta> * dist
                \<and> sqrt ((pt_x p - 100)\<^sup>2 + (pt_y p - 50)\<^sup>2) = \<bar>dist\<bar>"
    by blast
  from a[rule_format, of 0]
  have "pt_y (generateUnifiedShape 100 50 10 exampleSignature ! 0) = 50"
    by (simp add: Let_def)
  moreover from t[THEN conjunct2, THEN conjunct2, THEN conjunct1, rule_format, of 0 1]
  have "pt_angle (generateUnifiedShape 100 50 10 exampleSignature ! 0)
          < pt_angle (generateUnifiedShape 100 50 10 exampleSignature ! 1)"
    by simp
  ultimately show ?thesis
    using t[THEN conjunct1] t[THEN conjunct2, THEN conjunct2, THEN conjunct2, THEN conjunct1]
    by simp
qed

lemma fold_max_bounds:
  "lo \<le> a \<Longrightarrow> a \<le> hi \<Longrightarrow> \<forall>x \<in> set ys. lo \<le> x \<and> x \<le> hi \<Longrightarrow>
   lo \<le> fold max ys a \<and> fold max ys a \<le> (hi::real)"
  by (induction ys arbitrary: a) (auto simp add: max_def)

lemma maxOf_bounds:
  assumes "xs \<noteq> []" "\<forall>x \<in> set xs. lo \<le> x \<and> x \<le> hi"
  shows "lo \<le> maxOf xs \<and> maxOf xs \<le> hi"
proof -
  from assms(1) obtain y ys where xs: "xs = y # ys" by (cases xs) auto
  with assms(2) fold_max_bounds[of lo y hi ys] show ?thesis by (simp add: maxOf_def)
qed

lemma analyzeEmotionalExpression_intensity:
  assumes "\<forall>e \<in> set emo. 0 \<le> e \<and> e \<le> 1"
  shows "0 \<le> ee_intensity (analyzeEmotionalExpression text emo) \<and>
         ee_intensity (analyzeEmotionalExpression text emo) \<le> 1"
proof (cases "text = []")
  case True
  then show ?thesis by (simp add: analyzeEmotionalExpression_def)
next
  case False
  define ei where "ei = (if length emo > 0 then maxOf emo else 0.5)"
  have ei: "0 \<le> ei \<and> ei \<le> 1"
  proof (cases "emo = []")
    case True then show ?thesis by (simp add: ei_def)
  next
    case False
    with maxOf_bounds[OF False assms] show ?thesis by (simp add: ei_def)
  qed
  define tot where "tot = real (countWordIndicators intenseEmotions (toLowerCase text)) * 3
     + real (countWordIndicators moderateEmotions (toLowerCase text)) * 2
     + real (countWordIndicators reservedEmotions (toLowerCase text))
     + real (countChar CHR ''!'' text) * 0.5 + real (countRepetitions text) * 0.3"
  have tot: "0 \<le> tot" by (simp add: tot_def)
  have "ee_intensity (analyzeEmotionalExpression text emo) = min 1 (tot / 20 + ei * 0.5)"
    using False by (simp add: analyzeEmotionalExpression_def Let_def tot_def ei_def)
  moreover have "0 \<le> tot / 20 + ei * 0.5" using tot ei by simp
  ultimately show ?thesis by simp
qed

text \<open>
  Claim C7. For every subjectivity profile the colour adjustment has \<open>saturation\<close> 1,
  \<open>hueShift\<close> 0 and \<open>brightness\<close> 1, so two profiles that differ only in
  \<open>emotional_expression.intensity\<close> get colour adjustments that differ only in
  \<open>opacity\<close>. For an intensity in [0, 1], the normalised range of the data model, the
  opacity is \<open>0.7 + intensity \<sqdot> 0.25\<close> and lies in [0.7, 0.95]. The profile extracted
  from a node whose emotion scores lie in [0, 1] has such an intensity, and the opacity of
  the signature of the node lies in [0.7, 0.95].
\<close>

theorem calculateColorAdjustment_opacity_only:
  "ca_saturation (calculateColorAdjustment p) = 1 \<and>
   ca_hueShift (calculateColorAdjustment p) = 0 \<and>
   ca_brightness (calculateColorAdjustment p) = 1 \<and>
   calculateColorAdjustment
       (p\<lparr>emotional_expression := (emotional_expression p)\<lparr>ee_intensity := t\<rparr>\<rparr>)
     = (calculateColorAdjustment p)
         \<lparr>ca_opacity := ca_opacity (calculateColorAdjustment
             (p\<lparr>emotional_expression := (emotional_expression p)\<lparr>ee_intensity := t\<rparr>\<rparr>))\<rparr> \<and>
   (0 \<le> ee_intensity (emotional_expression p) \<and> ee_intensity (emotional_expression p) \<le> 1
      \<longrightarrow> ca_opacity (calculateColorAdjustment p)
             = 0.7 + ee_intensity (emotional_expression p) * 0.25 \<and>
           0.7 \<le> ca_opacity (calculateColorAdjustment p) \<and>
           ca_opacity (calculateColorAdjustment p) \<le> 0.95) \<and>
   ((\<forall>e \<in> set (orEmpty (emotion (isotype_sig nd))). 0 \<le> e \<and> e \<le> 1)
      \<longrightarrow> 0 \<le> ee_intensity (emotional_expression (extractSubjectivity nd)) \<and>
           ee_intensity (emotional_expression (extractSubjectivity nd)) \<le> 1 \<and>
           0.7 \<le> ca_opacity (colorAdjustment (generateIsotypeSignature r nd)) \<and>
           ca_opacity (colorAdjustment (generateIsotypeSignature r nd)) \<le> 0.95)"
proof (intro conjI impI)
  show "ca_saturation (calculateColorAdjustment p) = 1"
    "ca_hueShift (calculateColorAdjustment p) = 0"
    "ca_brightness (calculateColorAdjustment p) = 1"
    by (simp_all add: calculateColorAdjustment_def Let_def)
  show "calculateColorAdjustment
       (p\<lparr>emotional_expression := (emotional_expression p)\<lparr>ee_intensity := t\<rparr>\<rparr>)
     = (calculateColorAdjustment p)
         \<lparr>ca_opacity := ca_opacity (calculateColorAdjustment
             (p\<lparr>emotional_expression := (emotional_expression p)\<lparr>ee_intensity := t\<rparr>\<rparr>))\<rparr>"
    by (simp add: calculateColorAdjustment_def Let_def)
next
  assume "0 \<le> ee_intensity (emotional_expression p) \<and> ee_intensity (emotional_expression p) \<le> 1"
  then show "ca_opacity (calculateColorAdjustment p)
             = 0.7 + ee_intensity (emotional_expression p) * 0.25"
    "0.7 \<le> ca_opacity (calculateColorAdjustment p)"
    "ca_opacity (calculateColorAdjustment p) \<le> 0.95"
    by (simp_all add: calculateColorAdjustment_def Let_def min_def)
next
  assume a: "\<forall>e \<in> set (orEmpty (emotion (isotype_sig nd))). 0 \<le> e \<and> e \<le> 1"
  have i: "ee_intensity (emotional_expression (extractSubjectivity nd))
    = ee_intensity (analyzeEmotionalExpression (orEmpty (text_content nd))
         (orEmpty (emotion (isotype_sig nd))))"
    by (simp add: extractSubjectivity_def Let_def)
  from analyzeEmotionalExpression_intensity[OF a, of "orEmpty (text_content nd)"]
  show b: "0 \<le> ee_intensity (emotional_expression (extractSubjectivity nd))"
    "ee_intensity (emotional_expression (extractSubjectivity nd)) \<le> 1"
    unfolding i by simp_all
  have "colorAdjustment (generateIsotypeSignature r nd)
    = calculateColorAdjustment (extractSubjectivity nd)"
    by (simp add: generateIsotypeSignature_def Let_def)
  with b show "0.7 \<le> ca_opacity (colorAdjustment (generateIsotypeSignature r nd))"
    "ca_opacity (colorAdjustment (generateIsotypeSignature r nd)) \<le> 0.95"
    by (simp_all add: calculateColorAdjustment_def Let_def min_def)
qed

theorem calculateColorAdjustment_opacity_only_witness:
  "(0::real) \<le> ee_intensity (emotional_expression (sig_subjectivity exampleSignature)) \<and>
   ee_intensity (emotional_expression (sig_subjectivity exampleSignature)) \<le> 1 \<and>
   ca_opacity (calculateColorAdjustment (sig_subjectivity exampleSignature)) = 0.825 \<and>
   orEmpty (emotion (isotype_sig storyNode)) = [0.2, 0.9] \<and>
   ee_intensity (emotional_expression (extractSubjectivity storyNode)) = 0.79 \<and>
   0.7 \<le> ca_opacity (colorAdjustment (generateIsotypeSignature exampleRenderer storyNode)) \<and>
   ca_opacity (colorAdjustment (generateIsotypeSignature exampleRenderer storyNode)) \<le> 0.95"
proof -
  note t = calculateColorAdjustment_opacity_only
    [of "sig_subjectivity exampleSignature" 1 storyNode exampleRenderer]
  have e: "orEmpty (emotion (isotype_sig storyNode)) = [0.2, 0.9]"
    by (simp add: storyNode_def orEmpty_def)
  have i: "ee_intensity (analyzeEmotionalExpression (orEmpty (text_content storyNode))
             (orEmpty (emotion (isotype_sig storyNode)))) = 0.79"
    by code_simp
  then have i': "ee_intensity (emotional_expression (extractSubjectivity storyNode)) = 0.79"
    by (simp add: extractSubjectivity_def Let_def)
  have x: "ee_intensity (emotional_expression (sig_subjectivity exampleSignature)) = 0.5"
    by (simp add: exampleSignature_def)
  from t[THEN conjunct2, THEN conjunct2, THEN conjunct2, THEN conjunct2, THEN conjunct1] x
  have o: "ca_opacity (calculateColorAdjustment (sig_subjectivity exampleSignature)) = 0.825"
    by simp
  from t[THEN conjunct2, THEN conjunct2, THEN conjunct2, THEN conjunct2, THEN conjunct2] e
  have "0.7 \<le> ca_opacity (colorAdjustment (generateIsotypeSignature exampleRenderer storyNode)) \<and>
   ca_opacity (colorAdjustment (generateIsotypeSignature exampleRenderer storyNode)) \<le> 0.95"
    by simp
  with e i' o x show ?thesis by simp
qed

section \<open>Cosine similarity\<close>









section \<open>Similarity graph\<close>

lemma setAdd_set: "set (setAdd s v) = insert v (set s)"
  by (auto simp add: setAdd_def)

lemma setAdd_distinct: "distinct s \<Longrightarrow> distinct (setAdd s v)"
  by (simp add: setAdd_def)

lemma setAdd_length: "length (setAdd s v) \<le> Suc (length s)"
  by (simp add: setAdd_def)

lemma window_fold:
  "distinct (acc @ xs) \<Longrightarrow>
   fold (\<lambda>i indices. if i \<noteq> c then setAdd indices i else indices) xs acc
     = acc @ filter (\<lambda>i. i \<noteq> c) xs"
proof (induction xs arbitrary: acc)
  case Nil
  then show ?case by simp
next
  case (Cons x xs)
  have d: "distinct ((if x \<noteq> c then setAdd acc x else acc) @ xs)"
    using Cons.prems by (auto simp add: setAdd_def)
  show ?case using Cons.IH[OF d] Cons.prems by (auto simp add: setAdd_def)
qed

lemma windowIndices_filter:
  "windowIndices n c =
     filter (\<lambda>i. i \<noteq> c) [nat (max 0 (int c - int (min 20 n)))..<min n (c + min 20 n)]"
  unfolding windowIndices_def Let_def by (subst window_fold) simp_all

lemma windowIndices_set:
  "set (windowIndices n c) =
     {j. j \<noteq> c \<and> j < n \<and> int c - int (min 20 n) \<le> int j \<and> j < c + min 20 n}"
  unfolding windowIndices_filter by auto

lemma windowIndices_distinct: "distinct (windowIndices n c)"
  unfolding windowIndices_filter by simp

lemma windowIndices_length: "length (windowIndices n c) \<le> 39"
proof -
  have "length (windowIndices n c) \<le> length [nat (max 0 (int c - int (min 20 n)))..<min n (c + min 20 n)]"
    unfolding windowIndices_filter by (rule length_filter_le)
  moreover have "length [nat (max 0 (int c - int (min 20 n)))..<min n (c + min 20 n)] \<le> 40"
    by simp
  ultimately have le40: "length (windowIndices n c) \<le> 40" by linarith
  show ?thesis
  proof (cases "c \<in> set [nat (max 0 (int c - int (min 20 n)))..<min n (c + min 20 n)]")
    case True
    then have "length (windowIndices n c) < length [nat (max 0 (int c - int (min 20 n)))..<min n (c + min 20 n)]"
      unfolding windowIndices_filter by (intro length_filter_less[of c]) auto
    moreover have "length [nat (max 0 (int c - int (min 20 n)))..<min n (c + min 20 n)] \<le> 40"
      by simp
    ultimately show ?thesis by linarith
  next
    case False
    then have "n \<le> c \<or> n = 0" by auto
    then have "length [nat (max 0 (int c - int (min 20 n)))..<min n (c + min 20 n)] \<le> 20"
      by auto
    with \<open>length (windowIndices n c) \<le> length _\<close> show ?thesis by linarith
  qed
qed

lemma randomIndex_bound:
  assumes "0 \<le> r" "r < 1" "0 < n"
  shows "nat \<lfloor>r * real n\<rfloor> < n"
proof -
  have "r * real n < real n" using assms by simp
  then have "\<lfloor>r * real n\<rfloor> < int n" by (simp add: floor_less_iff)
  moreover have "0 \<le> \<lfloor>r * real n\<rfloor>" using assms by simp
  ultimately show ?thesis by linarith
qed

lemma randomLoop_props:
  "randomLoop rnd n c sz rc i pos ind = (res, pos') \<Longrightarrow>
         (c \<notin> set ind \<longrightarrow> c \<notin> set res) \<and>
         (distinct ind \<longrightarrow> distinct res) \<and>
         (\<exists>ys. res = ind @ ys) \<and>
         length res \<le> max sz (length ind) \<and>
         (sz \<le> length ind \<longrightarrow> res = ind) \<and>
         ((\<forall>k. 0 \<le> rnd k \<and> rnd k < 1) \<and> 0 < n \<and> (\<forall>j \<in> set ind. j < n)
            \<longrightarrow> (\<forall>j \<in> set res. j < n))"
proof (induction "nat (rc - int i)" arbitrary: i pos ind rule: less_induct)
  case less
  show ?case
  proof (cases "int i < rc \<and> length ind < sz")
    case False
    with less.prems have "res = ind" by (subst (asm) randomLoop.simps) auto
    then show ?thesis by auto
  next
    case True
    define r where "r = nat \<lfloor>rnd pos * real n\<rfloor>"
    define ind' where "ind' = (if r \<noteq> c then setAdd ind r else ind)"
    have "randomLoop rnd n c sz rc i pos ind = randomLoop rnd n c sz rc (i + 1) (pos + 1) ind'"
      using True by (subst randomLoop.simps) (simp add: Let_def r_def ind'_def)
    with less.prems have rec: "randomLoop rnd n c sz rc (i + 1) (pos + 1) ind' = (res, pos')"
      by simp
    have lt: "nat (rc - int (i + 1)) < nat (rc - int i)" using True by simp
    note ih = less.hyps[OF lt rec]
    have s1: "c \<notin> set ind \<Longrightarrow> c \<notin> set ind'" by (auto simp add: ind'_def setAdd_set)
    have s2: "distinct ind \<Longrightarrow> distinct ind'" by (simp add: ind'_def setAdd_distinct)
    have "\<exists>zs. ind' = ind @ zs" by (simp add: ind'_def setAdd_def)
    then obtain zs where s3: "ind' = ind @ zs" by blast
    have s4: "length ind' \<le> sz" using True setAdd_length[of ind r] by (simp add: ind'_def)
    have s5: "\<forall>j \<in> set ind'. j < n"
      if rk: "\<forall>k. 0 \<le> rnd k \<and> rnd k < 1" and n: "0 < n" and b: "\<forall>j \<in> set ind. j < n"
    proof -
      have "r < n" unfolding r_def using rk n by (intro randomIndex_bound) auto
      with b show ?thesis by (auto simp add: ind'_def setAdd_set)
    qed
    have c1: "c \<notin> set ind \<longrightarrow> c \<notin> set res" using ih s1 by blast
    have c2: "distinct ind \<longrightarrow> distinct res" using ih s2 by blast
    have c3: "\<exists>ys. res = ind @ ys" using ih s3 by auto
    have c4: "length res \<le> max sz (length ind)" using ih s4 by linarith
    have c5: "sz \<le> length ind \<longrightarrow> res = ind" using True by simp
    have c6: "(\<forall>k. 0 \<le> rnd k \<and> rnd k < 1) \<and> 0 < n \<and> (\<forall>j \<in> set ind. j < n)
            \<longrightarrow> (\<forall>j \<in> set res. j < n)" using ih s5 by blast
    from c1 c2 c3 c4 c5 c6 show ?thesis by blast
  qed
qed

lemma getSampleIndices_props:
  assumes "getSampleIndices this rnd pos i sampleSize = (indices, pos')"
  shows "i \<notin> set indices \<and> distinct indices \<and>
         (\<exists>ys. indices = windowIndices (length (app_nodes this)) i @ ys) \<and>
         set (windowIndices (length (app_nodes this)) i) =
           {j. j \<noteq> i \<and> j < length (app_nodes this) \<and>
               int i - int (min 20 (length (app_nodes this))) \<le> int j \<and>
               j < i + min 20 (length (app_nodes this))} \<and>
         length (windowIndices (length (app_nodes this)) i) \<le> 39 \<and>
         length indices \<le> max sampleSize (length (windowIndices (length (app_nodes this)) i)) \<and>
         (sampleSize \<le> length (windowIndices (length (app_nodes this)) i)
            \<longrightarrow> indices = windowIndices (length (app_nodes this)) i) \<and>
         ((\<forall>k. 0 \<le> rnd k \<and> rnd k < 1) \<and> i < length (app_nodes this)
            \<longrightarrow> (\<forall>j \<in> set indices. j < length (app_nodes this)))"
proof -
  define n where "n = length (app_nodes this)"
  define w where "w = windowIndices n i"
  from assms have r: "randomLoop rnd n i sampleSize (int sampleSize - int (length w)) 0 pos w = (indices, pos')"
    by (simp add: getSampleIndices_def Let_def n_def w_def)
  note p = randomLoop_props[OF r]
  have wi: "i \<notin> set w" by (simp add: w_def windowIndices_set)
  have wd: "distinct w" by (simp add: w_def windowIndices_distinct)
  have wn: "\<forall>j \<in> set w. j < n" by (simp add: w_def windowIndices_set)
  have "i < n \<Longrightarrow> 0 < n" by simp
  with p wi wd wn have
    "i \<notin> set indices" "distinct indices" "\<exists>ys. indices = w @ ys"
    "length indices \<le> max sampleSize (length w)" "sampleSize \<le> length w \<longrightarrow> indices = w"
    "(\<forall>k. 0 \<le> rnd k \<and> rnd k < 1) \<and> i < n \<longrightarrow> (\<forall>j \<in> set indices. j < n)"
    by blast+
  then show ?thesis
    unfolding n_def[symmetric] w_def[symmetric]
    using windowIndices_set[of n i] windowIndices_length[of n i]
    unfolding w_def[symmetric] by blast
qed

lemma calculateSimilarity_Inr:
  "calculateSimilarity a b d = Inr s \<Longrightarrow> a \<noteq> None \<and> b \<noteq> None"
  by (auto simp add: calculateSimilarity_def split: option.splits)

lemma calculateSimilarity_total:
  "\<exists>s. calculateSimilarity (Some a) (Some b) d = Inr s"
  by (simp add: calculateSimilarity_def)

lemma candidateLoop_props:
  "candidateLoop this linkSet i js acc = Inr cands \<Longrightarrow>
   \<exists>new. cands = acc @ new \<and> (\<forall>c \<in> set new. goodCandidate this linkSet i c) \<and>
         set (map cand_targetIndex new) \<subseteq> set js \<and>
         (distinct js \<longrightarrow> distinct (map cand_targetIndex new))"
proof (induction js arbitrary: acc)
  case Nil
  then show ?case by simp
next
  case (Cons j js)
  show ?case
  proof (cases "i = j \<or> linkKey i j \<in> set linkSet")
    case True
    with Cons.prems have "candidateLoop this linkSet i js acc = Inr cands"
      by (auto split: if_splits)
    from Cons.IH[OF this] show ?thesis by auto
  next
    case False
    with Cons.prems obtain sim where
      s: "calculateSimilarity (nodeAt (app_nodes this) i) (nodeAt (app_nodes this) j) (cfg_dimension this) = Inr sim"
      by (auto split: sum.splits)
    from calculateSimilarity_Inr[OF s] have jn: "j < length (app_nodes this)"
      by (auto simp add: nodeAt_def split: if_splits)
    define c where "c = \<lparr>cand_target = j, cand_similarity = sim, cand_targetIndex = j\<rparr>"
    show ?thesis
    proof (cases "sim \<ge> cfg_similarityThreshold this")
      case True
      with Cons.prems False s have "candidateLoop this linkSet i js (acc @ [c]) = Inr cands"
        by (simp add: c_def)
      from Cons.IH[OF this] obtain new where
        n: "cands = (acc @ [c]) @ new" "\<forall>c \<in> set new. goodCandidate this linkSet i c"
           "set (map cand_targetIndex new) \<subseteq> set js"
           "distinct js \<longrightarrow> distinct (map cand_targetIndex new)" by blast
      have gc: "goodCandidate this linkSet i c"
        using False True jn by (simp add: goodCandidate_def c_def)
      have ci: "cand_targetIndex c = j" by (simp add: c_def)
      show ?thesis
      proof (intro exI[of _ "c # new"] conjI)
        show "cands = acc @ c # new" using n(1) by simp
        show "\<forall>c \<in> set (c # new). goodCandidate this linkSet i c" using n(2) gc by simp
        show "set (map cand_targetIndex (c # new)) \<subseteq> set (j # js)" using n(3) ci by auto
        show "distinct (j # js) \<longrightarrow> distinct (map cand_targetIndex (c # new))"
          using n(3) n(4) ci by auto
      qed
    next
      case notge: False
      with Cons.prems False s have "candidateLoop this linkSet i js acc = Inr cands"
        by simp
      from Cons.IH[OF this] show ?thesis by auto
    qed
  qed
qed

lemma candidateLoop_total:
  "i < length (app_nodes this) \<Longrightarrow> \<forall>j \<in> set js. j < length (app_nodes this) \<Longrightarrow>
   \<exists>cands. candidateLoop this linkSet i js acc = Inr cands"
proof (induction js arbitrary: acc)
  case Nil
  then show ?case by simp
next
  case (Cons j js)
  have "nodeAt (app_nodes this) i = Some (app_nodes this ! i)"
       "nodeAt (app_nodes this) j = Some (app_nodes this ! j)"
    using Cons.prems by (simp_all add: nodeAt_def)
  then obtain sim where
    "calculateSimilarity (nodeAt (app_nodes this) i) (nodeAt (app_nodes this) j) (cfg_dimension this) = Inr sim"
    using calculateSimilarity_total[of "app_nodes this ! i" "app_nodes this ! j" "cfg_dimension this"]
    by auto
  moreover have "\<And>acc. \<exists>cands. candidateLoop this linkSet i js acc = Inr cands"
    using Cons.IH Cons.prems by simp
  ultimately show ?case by auto
qed

lemma linkKey_eq_iff: "linkKey a b = linkKey c d \<longleftrightarrow> {a, b} = {c, d}"
  by (auto simp add: linkKey_def doubleton_eq_iff)

lemma sourceCount_append:
  "sourceCount (xs @ ys) s = sourceCount xs s + sourceCount ys s"
  by (simp add: sourceCount_def)

lemma addLinks_props:
  "addLinks this i cs (links, linkSet) = (links', linkSet') \<Longrightarrow>
   \<forall>c \<in> set cs. cand_target c = cand_targetIndex c \<Longrightarrow>
   set linkSet = linkKeyOf ` set links \<Longrightarrow> distinct (map linkKeyOf links) \<Longrightarrow>
   \<exists>new. links' = links @ new \<and> length new \<le> length cs \<and>
     (\<forall>l \<in> set new. source l = i \<and>
        (\<exists>c \<in> set cs. target l = cand_target c \<and> similarity l = cand_similarity c)) \<and>
     set linkSet' = linkKeyOf ` set links' \<and> distinct (map linkKeyOf links')"
proof (induction cs arbitrary: links linkSet)
  case Nil
  then show ?case by simp
next
  case (Cons c cs)
  define key where "key = linkKey i (cand_targetIndex c)"
  show ?case
  proof (cases "key \<in> set linkSet")
    case True
    with Cons.prems(1) have "addLinks this i cs (links, linkSet) = (links', linkSet')"
      by (simp add: Let_def key_def)
    from Cons.IH[OF this _ Cons.prems(3,4)] Cons.prems(2) obtain new where
      "links' = links @ new" "length new \<le> length cs"
      "\<forall>l \<in> set new. source l = i \<and> (\<exists>c \<in> set cs. target l = cand_target c \<and> similarity l = cand_similarity c)"
      "set linkSet' = linkKeyOf ` set links'" "distinct (map linkKeyOf links')" by auto
    then show ?thesis by (intro exI[of _ new]) auto
  next
    case False
    define l where "l = \<lparr>source = i, target = cand_target c, similarity = cand_similarity c,
                           dimension = cfg_dimension this\<rparr>"
    have lk: "linkKeyOf l = key" using Cons.prems(2) by (simp add: linkKeyOf_def l_def key_def)
    from False Cons.prems(1) have a: "addLinks this i cs (links @ [l], setAdd linkSet key) = (links', linkSet')"
      by (simp add: Let_def key_def l_def)
    have p3: "set (setAdd linkSet key) = linkKeyOf ` set (links @ [l])"
      using Cons.prems(3) lk by (auto simp add: setAdd_set)
    have p4: "distinct (map linkKeyOf (links @ [l]))"
      using Cons.prems(3,4) False lk by auto
    from Cons.IH[OF a _ p3 p4] Cons.prems(2) obtain new where n:
      "links' = (links @ [l]) @ new" "length new \<le> length cs"
      "\<forall>l \<in> set new. source l = i \<and> (\<exists>c \<in> set cs. target l = cand_target c \<and> similarity l = cand_similarity c)"
      "set linkSet' = linkKeyOf ` set links'" "distinct (map linkKeyOf links')" by auto
    show ?thesis
    proof (intro exI[of _ "l # new"] conjI)
      show "links' = links @ l # new" using n(1) by simp
      show "length (l # new) \<le> length (c # cs)" using n(2) by simp
      show "\<forall>l \<in> set (l # new). source l = i \<and>
        (\<exists>c \<in> set (c # cs). target l = cand_target c \<and> similarity l = cand_similarity c)"
        using n(3) by (auto simp add: l_def)
      show "set linkSet' = linkKeyOf ` set links'" by (rule n(4))
      show "distinct (map linkKeyOf links')" by (rule n(5))
    qed
  qed
qed

lemma slice0_props:
  "set (slice0 xs m) \<subseteq> set xs" "0 \<le> m \<Longrightarrow> int (length (slice0 xs m)) \<le> m"
  by (auto simp add: slice0_def dest: in_set_takeD)

lemma sortCandidates_set: "set (sortCandidates cs) = set cs"
  by (simp add: sortCandidates_def)

lemma sourceCount_le_length: "sourceCount xs s \<le> length xs"
  by (simp add: sourceCount_def)

lemma sourceCount_zero: "\<forall>l \<in> set xs. source l \<noteq> s \<Longrightarrow> sourceCount xs s = 0"
  by (simp add: sourceCount_def)

lemma linkLoop_step:
  assumes lt: "i < length (app_nodes this)"
    and gs: "getSampleIndices this rnd pos i sampleSize = (sampleIndices, pos')"
    and cl: "candidateLoop this linkSet i sampleIndices [] = Inr candidates"
    and al: "addLinks this i (slice0 (sortCandidates candidates) maxLinks) (links, linkSet) = (links', linkSet')"
    and m: "0 \<le> maxLinks"
    and inv: "linkInvariant this maxLinks i links linkSet"
  shows "linkInvariant this maxLinks (i + 1) links' linkSet'"
proof -
  define top where "top = slice0 (sortCandidates candidates) maxLinks"
  from candidateLoop_props[OF cl] have good: "\<forall>c \<in> set candidates. goodCandidate this linkSet i c"
    by auto
  have sub: "set top \<subseteq> set candidates"
    using slice0_props(1)[of "sortCandidates candidates" maxLinks]
    by (simp add: top_def sortCandidates_set)
  have tl: "int (length top) \<le> maxLinks" using slice0_props(2)[OF m] by (simp add: top_def)
  have tgood: "\<forall>c \<in> set top. goodCandidate this linkSet i c" using good sub by blast
  then have tt: "\<forall>c \<in> set top. cand_target c = cand_targetIndex c"
    by (simp add: goodCandidate_def)
  from inv have i1: "set linkSet = linkKeyOf ` set links" and i2: "distinct (map linkKeyOf links)"
    and i3: "\<forall>l \<in> set links. source l \<noteq> target l \<and>
        similarity l \<ge> cfg_similarityThreshold this \<and>
        source l < i \<and> target l < length (app_nodes this)"
    and i4: "\<forall>s < length (app_nodes this). int (sourceCount links s) \<le> maxLinks"
    by (simp_all add: linkInvariant_def)
  from addLinks_props[OF al[folded top_def] tt i1 i2] obtain new where
    n1: "links' = links @ new" and n2: "length new \<le> length top"
    and n3: "\<forall>l \<in> set new. source l = i \<and>
        (\<exists>c \<in> set top. target l = cand_target c \<and> similarity l = cand_similarity c)"
    and n4: "set linkSet' = linkKeyOf ` set links'" and n5: "distinct (map linkKeyOf links')"
    by blast
  have newp: "source l \<noteq> target l \<and> similarity l \<ge> cfg_similarityThreshold this \<and>
        source l < i + 1 \<and> target l < length (app_nodes this)" if "l \<in> set new" for l
  proof -
    from n3 that obtain c where c: "c \<in> set top" "target l = cand_target c"
      "similarity l = cand_similarity c" and s: "source l = i" by blast
    from tgood c(1) have "goodCandidate this linkSet i c" by blast
    with c s show ?thesis by (simp add: goodCandidate_def)
  qed
  have p3: "\<forall>l \<in> set links'. source l \<noteq> target l \<and>
        similarity l \<ge> cfg_similarityThreshold this \<and>
        source l < i + 1 \<and> target l < length (app_nodes this)"
  proof
    fix l assume "l \<in> set links'"
    then consider "l \<in> set links" | "l \<in> set new" using n1 by auto
    then show "source l \<noteq> target l \<and> similarity l \<ge> cfg_similarityThreshold this \<and>
        source l < i + 1 \<and> target l < length (app_nodes this)"
    proof cases
      case 1
      with i3 show ?thesis by auto
    next
      case 2
      then show ?thesis by (rule newp)
    qed
  qed
  have p4: "\<forall>s < length (app_nodes this). int (sourceCount links' s) \<le> maxLinks"
  proof (intro allI impI)
    fix s assume sn: "s < length (app_nodes this)"
    show "int (sourceCount links' s) \<le> maxLinks"
    proof (cases "s = i")
      case True
      have "sourceCount links i = 0" using i3 by (intro sourceCount_zero) auto
      moreover have "sourceCount new i \<le> length top"
        using sourceCount_le_length[of new i] n2 by linarith
      ultimately show ?thesis using tl True by (simp add: n1 sourceCount_append)
    next
      case False
      have "sourceCount new s = 0" using n3 False by (intro sourceCount_zero) auto
      then show ?thesis using i4 sn by (simp add: n1 sourceCount_append)
    qed
  qed
  from n4 n5 p3 p4 show ?thesis by (simp add: linkInvariant_def)
qed

lemma linkLoop_invariant:
  "linkLoop this rnd maxLinks sampleSize i (links, linkSet, pos) = Inr result \<Longrightarrow>
   0 \<le> maxLinks \<Longrightarrow> i \<le> length (app_nodes this) \<Longrightarrow>
   linkInvariant this maxLinks i links linkSet \<Longrightarrow>
   \<exists>ls. linkInvariant this maxLinks (length (app_nodes this)) result ls"
proof (induction "length (app_nodes this) - i" arbitrary: i links linkSet pos rule: less_induct)
  case less
  show ?case
  proof (cases "i < length (app_nodes this)")
    case False
    with less.prems(1) have "result = links" by (subst (asm) linkLoop.simps) simp
    moreover from False less.prems(3) have "i = length (app_nodes this)" by simp
    ultimately show ?thesis using less.prems(4) by blast
  next
    case True
    obtain sampleIndices pos' where gs: "getSampleIndices this rnd pos i sampleSize = (sampleIndices, pos')"
      by (cases "getSampleIndices this rnd pos i sampleSize") blast
    from less.prems(1) True gs obtain candidates where
      cl: "candidateLoop this linkSet i sampleIndices [] = Inr candidates"
      by (subst (asm) linkLoop.simps) (auto split: sum.splits)
    obtain links' linkSet' where
      al: "addLinks this i (slice0 (sortCandidates candidates) maxLinks) (links, linkSet) = (links', linkSet')"
      by (cases "addLinks this i (slice0 (sortCandidates candidates) maxLinks) (links, linkSet)") blast
    from less.prems(1) True gs cl al have
      rec: "linkLoop this rnd maxLinks sampleSize (i + 1) (links', linkSet', pos') = Inr result"
      by (subst (asm) linkLoop.simps) (simp add: Let_def)
    have inv': "linkInvariant this maxLinks (i + 1) links' linkSet'"
      using linkLoop_step[OF True gs cl al less.prems(2) less.prems(4)] .
    have lt: "length (app_nodes this) - (i + 1) < length (app_nodes this) - i" using True by simp
    from less.hyps[OF lt rec less.prems(2) _ inv'] True show ?thesis by simp
  qed
qed

lemma linkLoop_total:
  "\<forall>k. 0 \<le> rnd k \<and> rnd k < 1 \<Longrightarrow>
   \<exists>result. linkLoop this rnd maxLinks sampleSize i (links, linkSet, pos) = Inr result"
proof (induction "length (app_nodes this) - i" arbitrary: i links linkSet pos rule: less_induct)
  case less
  show ?case
  proof (cases "i < length (app_nodes this)")
    case False
    then show ?thesis by (subst linkLoop.simps) simp
  next
    case True
    obtain sampleIndices pos' where gs: "getSampleIndices this rnd pos i sampleSize = (sampleIndices, pos')"
      by (cases "getSampleIndices this rnd pos i sampleSize") blast
    from getSampleIndices_props[OF gs] less.prems True
    have "\<forall>j \<in> set sampleIndices. j < length (app_nodes this)" by blast
    from candidateLoop_total[OF True this] obtain candidates where
      cl: "candidateLoop this linkSet i sampleIndices [] = Inr candidates" by blast
    obtain links' linkSet' where
      al: "addLinks this i (slice0 (sortCandidates candidates) maxLinks) (links, linkSet) = (links', linkSet')"
      by (cases "addLinks this i (slice0 (sortCandidates candidates) maxLinks) (links, linkSet)") blast
    have lt: "length (app_nodes this) - (i + 1) < length (app_nodes this) - i" using True by simp
    from less.hyps[OF lt less.prems, of links' linkSet' pos'] obtain result where
      "linkLoop this rnd maxLinks sampleSize (i + 1) (links', linkSet', pos') = Inr result" by blast
    then have "linkLoop this rnd maxLinks sampleSize i (links, linkSet, pos) = Inr result"
      using True gs cl al by (subst linkLoop.simps) (simp add: Let_def)
    then show ?thesis by blast
  qed
qed

lemma generateLinksOptimized_invariant:
  assumes "generateLinksOptimized this rnd = Inr links"
  shows "\<exists>ls. linkInvariant this (maxLinksPerNode (length (app_nodes this)))
                 (length (app_nodes this)) links ls"
proof (cases "length (app_nodes this) = 0")
  case True
  with assms have "links = []"
    by (simp add: generateLinksOptimized_def Let_def linkLoop.simps)
  then show ?thesis using True
    by (intro exI[of _ "[]"]) (simp add: linkInvariant_def sourceCount_def maxLinksPerNode_def)
next
  case False
  then have m: "0 \<le> maxLinksPerNode (length (app_nodes this))"
    by (simp add: maxLinksPerNode_def)
  have inv0: "linkInvariant this (maxLinksPerNode (length (app_nodes this))) 0 [] []"
    using m by (simp add: linkInvariant_def sourceCount_def)
  from assms have "linkLoop this rnd (maxLinksPerNode (length (app_nodes this)))
      (sampleSizeFor (length (app_nodes this))) 0 ([], [], 0) = Inr links"
    by (simp add: generateLinksOptimized_def Let_def)
  from linkLoop_invariant[OF this m _ inv0] show ?thesis by simp
qed

lemma generateLinksOptimized_total:
  "\<forall>k. 0 \<le> rnd k \<and> rnd k < 1 \<Longrightarrow> \<exists>links. generateLinksOptimized this rnd = Inr links"
  unfolding generateLinksOptimized_def Let_def by (rule linkLoop_total)

subsection \<open>Properties of the sample and of the returned edge list\<close>

lemma zeroDraws_unit: "\<forall>k. 0 \<le> zeroDraws k \<and> zeroDraws k < 1"
  by (simp add: zeroDraws_def)

lemma example3_links:
  "generateLinksOptimized (exampleApp 3) zeroDraws =
     Inr [\<lparr>source = 0, target = 1, similarity = 1, dimension = ''multidimensional''\<rparr>,
          \<lparr>source = 0, target = 2, similarity = 1, dimension = ''multidimensional''\<rparr>,
          \<lparr>source = 1, target = 2, similarity = 1, dimension = ''multidimensional''\<rparr>]"
  by code_simp




text \<open>
  Twelve subjects with the same embedding, threshold 0.95: \<open>maxLinksPerNode\<close> is 10.
  Subject 0 keeps its ten best candidates, subjects 1 to 10; subject 11 later finds the
  pair (0, 11) unused and adds it, so subject 0 ends with eleven incident edges.
\<close>

theorem generateLinksOptimized_incident_counterexample:
  "\<not> isl (generateLinksOptimized (exampleApp 12) zeroDraws) \<and>
   maxLinksPerNode (length (app_nodes (exampleApp 12))) = 10 \<and>
   incidentCount (projr (generateLinksOptimized (exampleApp 12) zeroDraws)) 0 = 11"
  by code_simp

text \<open>
  Claim C3, as amended. In every edge list returned by the link builder, each subject is
  the source of at most \<open>maxLinksPerNode\<close> edges, where \<open>maxLinksPerNode\<close> is
  \<open>min(10, n - 1)\<close> for \<open>n \<le> 20\<close> subjects, 8 for 21 to 50 subjects and 5 otherwise.
  The builder returns an edge list whenever every random draw lies in \<open>[0, 1)\<close>.
\<close>

theorem generateLinksOptimized_source_cap:
  "(generateLinksOptimized this rnd = Inr links \<longrightarrow>
      (\<forall>s < length (app_nodes this).
          int (sourceCount links s) \<le> maxLinksPerNode (length (app_nodes this)))) \<and>
   maxLinksPerNode n = (if n \<le> 20 then min 10 (int n - 1) else if n \<le> 50 then 8 else 5) \<and>
   ((\<forall>k. 0 \<le> rnd k \<and> rnd k < 1) \<longrightarrow> (\<exists>ls. generateLinksOptimized this rnd = Inr ls))"
proof (intro conjI impI)
  assume "generateLinksOptimized this rnd = Inr links"
  from generateLinksOptimized_invariant[OF this]
  show "\<forall>s < length (app_nodes this).
          int (sourceCount links s) \<le> maxLinksPerNode (length (app_nodes this))"
    by (auto simp add: linkInvariant_def)
next
  show "maxLinksPerNode n = (if n \<le> 20 then min 10 (int n - 1) else if n \<le> 50 then 8 else 5)"
    by (simp add: maxLinksPerNode_def)
next
  assume "\<forall>k. 0 \<le> rnd k \<and> rnd k < 1"
  then show "\<exists>ls. generateLinksOptimized this rnd = Inr ls"
    by (rule generateLinksOptimized_total)
qed

theorem generateLinksOptimized_source_cap_witness:
  "(\<forall>k. 0 \<le> zeroDraws k \<and> zeroDraws k < 1) \<and>
   generateLinksOptimized (exampleApp 3) zeroDraws =
     Inr [\<lparr>source = 0, target = 1, similarity = 1, dimension = ''multidimensional''\<rparr>,
          \<lparr>source = 0, target = 2, similarity = 1, dimension = ''multidimensional''\<rparr>,
          \<lparr>source = 1, target = 2, similarity = 1, dimension = ''multidimensional''\<rparr>] \<and>
   (0::nat) < length (app_nodes (exampleApp 3)) \<and>
   int (sourceCount
     [\<lparr>source = 0, target = 1, similarity = 1, dimension = ''multidimensional''\<rparr>,
      \<lparr>source = 0, target = 2, similarity = 1, dimension = ''multidimensional''\<rparr>,
      \<lparr>source = 1, target = 2, similarity = 1, dimension = ''multidimensional''\<rparr>] 0)
     \<le> maxLinksPerNode (length (app_nodes (exampleApp 3)))"
proof -
  have n: "(0::nat) < length (app_nodes (exampleApp 3))" by (simp add: exampleApp_def)
  from generateLinksOptimized_source_cap[of "exampleApp 3" zeroDraws _ 3, THEN conjunct1,
      rule_format, OF example3_links n]
  show ?thesis using zeroDraws_unit example3_links n by simp
qed

text \<open>
  Claim C4. In every edge list returned by the link builder, no two edges join the same
  unordered pair of subjects (the keys of the edges are pairwise different), and every
  edge has a similarity of at least the configured threshold. The builder returns an
  edge list whenever every random draw lies in \<open>[0, 1)\<close>.
\<close>

theorem generateLinksOptimized_no_duplicates:
  "(generateLinksOptimized this rnd = Inr links \<longrightarrow>
      distinct (map linkKeyOf links) \<and>
      (\<forall>p q. p < q \<and> q < length links \<longrightarrow>
          {source (links ! p), target (links ! p)} \<noteq> {source (links ! q), target (links ! q)}) \<and>
      (\<forall>l \<in> set links. similarity l \<ge> cfg_similarityThreshold this)) \<and>
   ((\<forall>k. 0 \<le> rnd k \<and> rnd k < 1) \<longrightarrow> (\<exists>ls. generateLinksOptimized this rnd = Inr ls))"
proof (intro conjI impI allI)
  assume g: "generateLinksOptimized this rnd = Inr links"
  from generateLinksOptimized_invariant[OF g]
  show d: "distinct (map linkKeyOf links)" by (auto simp add: linkInvariant_def)
  from generateLinksOptimized_invariant[OF g]
  show "\<forall>l \<in> set links. similarity l \<ge> cfg_similarityThreshold this"
    by (auto simp add: linkInvariant_def)
  fix p q assume pq: "p < q \<and> q < length links"
  have "map linkKeyOf links ! p \<noteq> map linkKeyOf links ! q"
    using nth_eq_iff_index_eq[OF d, of p q] pq by simp
  then have "linkKeyOf (links ! p) \<noteq> linkKeyOf (links ! q)" using pq by simp
  then show "{source (links ! p), target (links ! p)} \<noteq> {source (links ! q), target (links ! q)}"
    by (simp add: linkKeyOf_def linkKey_eq_iff)
next
  assume "\<forall>k. 0 \<le> rnd k \<and> rnd k < 1"
  then show "\<exists>ls. generateLinksOptimized this rnd = Inr ls"
    by (rule generateLinksOptimized_total)
qed

theorem generateLinksOptimized_no_duplicates_witness:
  "(\<forall>k. 0 \<le> zeroDraws k \<and> zeroDraws k < 1) \<and>
   generateLinksOptimized (exampleApp 3) zeroDraws =
     Inr [\<lparr>source = 0, target = 1, similarity = 1, dimension = ''multidimensional''\<rparr>,
          \<lparr>source = 0, target = 2, similarity = 1, dimension = ''multidimensional''\<rparr>,
          \<lparr>source = 1, target = 2, similarity = 1, dimension = ''multidimensional''\<rparr>] \<and>
   distinct (map linkKeyOf
     [\<lparr>source = 0, target = 1, similarity = 1, dimension = ''multidimensional''\<rparr>,
      \<lparr>source = 0, target = 2, similarity = 1, dimension = ''multidimensional''\<rparr>,
      \<lparr>source = 1, target = 2, similarity = 1, dimension = ''multidimensional''\<rparr>])"
proof -
  from generateLinksOptimized_no_duplicates[of "exampleApp 3" zeroDraws, THEN conjunct1,
      rule_format, OF example3_links]
  show ?thesis using zeroDraws_unit example3_links by simp
qed

text \<open>
  Claim C10. Every edge returned by the link builder joins two different subjects: its
  source is never its target, and both are indices of subjects. The builder returns an
  edge list whenever every random draw lies in \<open>[0, 1)\<close>.
\<close>

theorem generateLinksOptimized_distinct_endpoints:
  "(generateLinksOptimized this rnd = Inr links \<longrightarrow>
      (\<forall>l \<in> set links. source l \<noteq> target l \<and>
          source l < length (app_nodes this) \<and> target l < length (app_nodes this))) \<and>
   ((\<forall>k. 0 \<le> rnd k \<and> rnd k < 1) \<longrightarrow> (\<exists>ls. generateLinksOptimized this rnd = Inr ls))"
proof (intro conjI impI)
  assume "generateLinksOptimized this rnd = Inr links"
  from generateLinksOptimized_invariant[OF this]
  show "\<forall>l \<in> set links. source l \<noteq> target l \<and>
          source l < length (app_nodes this) \<and> target l < length (app_nodes this)"
    by (auto simp add: linkInvariant_def)
next
  assume "\<forall>k. 0 \<le> rnd k \<and> rnd k < 1"
  then show "\<exists>ls. generateLinksOptimized this rnd = Inr ls"
    by (rule generateLinksOptimized_total)
qed

theorem generateLinksOptimized_distinct_endpoints_witness:
  "(\<forall>k. 0 \<le> zeroDraws k \<and> zeroDraws k < 1) \<and>
   generateLinksOptimized (exampleApp 3) zeroDraws =
     Inr [\<lparr>source = 0, target = 1, similarity = 1, dimension = ''multidimensional''\<rparr>,
          \<lparr>source = 0, target = 2, similarity = 1, dimension = ''multidimensional''\<rparr>,
          \<lparr>source = 1, target = 2, similarity = 1, dimension = ''multidimensional''\<rparr>] \<and>
   source \<lparr>source = 0::nat, target = 1, similarity = 1, dimension = ''multidimensional''\<rparr>
     \<noteq> target \<lparr>source = 0::nat, target = 1, similarity = 1, dimension = ''multidimensional''\<rparr>"
proof -
  from generateLinksOptimized_distinct_endpoints[of "exampleApp 3" zeroDraws, THEN conjunct1,
      rule_format, OF example3_links]
  show ?thesis using zeroDraws_unit example3_links by simp
qed

section \<open>Cluster detection\<close>

lemma adjacent_sym: "adjacent links thr x w \<Longrightarrow> adjacent links thr w x"
  by (auto simp add: adjacent_def)

lemma closedAt_mono:
  "closedAt nodes links thr v k \<Longrightarrow> v \<subseteq> v' \<Longrightarrow> closedAt nodes links thr v' k"
  by (auto simp add: closedAt_def)

lemma nodeIndexMap_fold_defined:
  "x \<in> set xs \<union> dom m0 \<Longrightarrow> x \<in> dom (fold mapSet (enumerate k xs) m0)"
proof (induction xs arbitrary: k m0)
  case Nil
  then show ?case by simp
next
  case (Cons y ys)
  have "x \<in> set ys \<union> dom (m0(y \<mapsto> k))" using Cons.prems by auto
  then have "x \<in> dom (fold mapSet (enumerate (Suc k) ys) (m0(y \<mapsto> k)))" by (rule Cons.IH)
  then show ?case by (simp only: enumerate_simps fold_simps mapSet_pair o_apply)
qed

lemma nodeIndexMap_defined:
  "x \<in> set nodes \<Longrightarrow> \<exists>j. nodeIndexMap nodes x = Some j"
  using nodeIndexMap_fold_defined[of x nodes Map.empty 0] by (auto simp add: nodeIndexMap_def)

lemma nodeIndexMap_distinct:
  assumes "distinct nodes" "i < length nodes"
  shows "nodeIndexMap nodes (nodes ! i) = Some i"
proof -
  from assms(2) have "nodes ! i \<in> set nodes" by simp
  from nodeIndexMap_defined[OF this] obtain j where j: "nodeIndexMap nodes (nodes ! i) = Some j"
    by blast
  from nodeIndexMap_Some[OF j] have "j < length nodes" "nodes ! j = nodes ! i" by auto
  with assms have "j = i" by (simp add: nth_eq_iff_index_eq)
  with j show ?thesis by simp
qed

text \<open>One link, expanded for the node \<open>z\<close>.\<close>

lemma linkStep_Some:
  assumes "linkStep nodes thr (Some z) l (c, q, v) = (c', q', v')"
  shows "((c', q', v') = (c, q, v) \<or>
          (\<exists>w j. nodeIndexMap nodes w = Some j \<and> j \<notin> v \<and> adjacent [l] thr z w \<and>
                 (c', q', v') = (c @ [w], q @ [j], insert j v))) \<and>
         (\<forall>w j. adjacent [l] thr z w \<and> nodeIndexMap nodes w = Some j \<longrightarrow> j \<in> v')"
  using assms
  by (auto simp add: linkStep_def Let_def adjacent_def split: option.splits if_splits)

lemma linkFold_Some:
  "fold (linkStep nodes thr (Some z)) links (c, q, v) = (c', q', v') \<Longrightarrow>
   (\<exists>added. q' = q @ added \<and> v' = v \<union> set added \<and> distinct added \<and>
      c' = c @ map (\<lambda>j. nodes ! j) added \<and>
      (\<forall>j \<in> set added. j < length nodes \<and> j \<notin> v \<and> adjacent links thr z (nodes ! j) \<and>
           nodeIndexMap nodes (nodes ! j) = Some j)) \<and>
   (\<forall>w j. adjacent links thr z w \<and> nodeIndexMap nodes w = Some j \<longrightarrow> j \<in> v')"
proof (induction links arbitrary: c q v)
  case Nil
  then show ?case by (simp add: adjacent_def)
next
  case (Cons l ls)
  obtain c1 q1 v1 where s1: "linkStep nodes thr (Some z) l (c, q, v) = (c1, q1, v1)"
    by (metis prod_cases3)
  with Cons.prems have f: "fold (linkStep nodes thr (Some z)) ls (c1, q1, v1) = (c', q', v')"
    by simp
  from Cons.IH[OF f] obtain added where a:
    "q' = q1 @ added" "v' = v1 \<union> set added" "distinct added"
    "c' = c1 @ map (\<lambda>j. nodes ! j) added"
    "\<forall>j \<in> set added. j < length nodes \<and> j \<notin> v1 \<and> adjacent ls thr z (nodes ! j) \<and>
           nodeIndexMap nodes (nodes ! j) = Some j"
    and cl: "\<forall>w j. adjacent ls thr z w \<and> nodeIndexMap nodes w = Some j \<longrightarrow> j \<in> v'"
    by blast
  note st = linkStep_Some[OF s1]
  from st have cl1: "\<forall>w j. adjacent [l] thr z w \<and> nodeIndexMap nodes w = Some j \<longrightarrow> j \<in> v1"
    by blast
  have adj_split: "adjacent (l # ls) thr z w \<longleftrightarrow> adjacent [l] thr z w \<or> adjacent ls thr z w" for w
    by (auto simp add: adjacent_def)
  have closure: "\<forall>w j. adjacent (l # ls) thr z w \<and> nodeIndexMap nodes w = Some j \<longrightarrow> j \<in> v'"
    using cl cl1 a(2) adj_split by blast
  from st have "(c1, q1, v1) = (c, q, v) \<or>
          (\<exists>w j. nodeIndexMap nodes w = Some j \<and> j \<notin> v \<and> adjacent [l] thr z w \<and>
                 (c1, q1, v1) = (c @ [w], q @ [j], insert j v))" by blast
  then show ?case
  proof
    assume e: "(c1, q1, v1) = (c, q, v)"
    have "q' = q @ added \<and> v' = v \<union> set added \<and> distinct added \<and>
      c' = c @ map (\<lambda>j. nodes ! j) added \<and>
      (\<forall>j \<in> set added. j < length nodes \<and> j \<notin> v \<and> adjacent (l # ls) thr z (nodes ! j) \<and>
           nodeIndexMap nodes (nodes ! j) = Some j)"
      using a e adj_split by auto
    with closure show ?thesis by blast
  next
    assume "\<exists>w j. nodeIndexMap nodes w = Some j \<and> j \<notin> v \<and> adjacent [l] thr z w \<and>
                 (c1, q1, v1) = (c @ [w], q @ [j], insert j v)"
    then obtain w j where wj: "nodeIndexMap nodes w = Some j" "j \<notin> v" "adjacent [l] thr z w"
      and e: "c1 = c @ [w]" "q1 = q @ [j]" "v1 = insert j v" by blast
    from nodeIndexMap_Some[OF wj(1)] have jn: "j < length nodes" "nodes ! j = w" by auto
    have "q' = q @ (j # added) \<and> v' = v \<union> set (j # added) \<and> distinct (j # added) \<and>
      c' = c @ map (\<lambda>j. nodes ! j) (j # added) \<and>
      (\<forall>j \<in> set (j # added). j < length nodes \<and> j \<notin> v \<and> adjacent (l # ls) thr z (nodes ! j) \<and>
           nodeIndexMap nodes (nodes ! j) = Some j)"
      using a e wj jn adj_split by auto
    with closure show ?thesis by blast
  qed
qed

lemma bfsInv_step:
  assumes inv: "bfsInv nodes links thr V0 s (cluster, cur # rest, visited)"
    and cl0: "\<forall>k \<in> V0. closedAt nodes links thr V0 k"
    and f: "fold (linkStep nodes thr (nodeAt nodes cur)) links (cluster, rest, visited) = (cluster', queue', visited')"
  shows "bfsInv nodes links thr V0 s (cluster', queue', visited')"
proof -
  from inv have v0: "V0 \<subseteq> visited" and s0: "s \<notin> V0" and vn: "visited \<subseteq> {..<length nodes}"
    and qv: "set (cur # rest) \<subseteq> visited - V0"
    and cls: "\<forall>k \<in> visited. k \<in> set (cur # rest) \<or> closedAt nodes links thr visited k"
    and pb: "(\<exists>k \<in> V0. nodes ! k = nodes ! s) \<longrightarrow> length cluster = 1"
    by (simp_all add: bfsInv_def)
  from inv obtain idxs where ix: "cluster = map (\<lambda>j. nodes ! j) (s # idxs)" "distinct (s # idxs)"
    "set (s # idxs) = visited - V0" "\<forall>j \<in> set idxs. \<forall>k \<in> V0. nodes ! k \<noteq> nodes ! j"
    by (auto simp add: bfsInv_def)
  from qv vn have curn: "cur < length nodes" and curv: "cur \<in> visited" by auto
  define z where "z = nodes ! cur"
  have ra: "nodeAt nodes cur = Some z" using curn by (simp add: nodeAt_def z_def)
  from nodeIndexMap_defined[of z nodes] curn obtain jz where jz: "nodeIndexMap nodes z = Some jz"
    by (auto simp add: z_def)
  from nodeIndexMap_Some[OF jz] have jzn: "nodes ! jz = z" by simp
  from linkFold_Some[OF f[unfolded ra]] obtain added where a:
    "queue' = rest @ added" "visited' = visited \<union> set added" "distinct added"
    "cluster' = cluster @ map (\<lambda>j. nodes ! j) added"
    "\<forall>j \<in> set added. j < length nodes \<and> j \<notin> visited \<and> adjacent links thr z (nodes ! j) \<and>
           nodeIndexMap nodes (nodes ! j) = Some j"
    and clo: "\<forall>w j. adjacent links thr z w \<and> nodeIndexMap nodes w = Some j \<longrightarrow> j \<in> visited'"
    by blast
  have sub: "visited \<subseteq> visited'" using a(2) by auto
  \<comment> \<open>a subject with an index in \<open>V0\<close> has all its neighbours in \<open>V0\<close>\<close>
  have old: "j \<in> V0" if "k \<in> V0" "nodes ! k = x" "adjacent links thr x w"
      "nodeIndexMap nodes w = Some j" for k x w j
    using cl0 that by (auto simp add: closedAt_def)
  have notold: "nodes ! k \<noteq> nodes ! j" if j: "j \<in> set added" and k: "k \<in> V0" for j k
  proof
    assume e: "nodes ! k = nodes ! j"
    from a(5) j have adj: "adjacent links thr z (nodes ! j)"
      and mj: "nodeIndexMap nodes (nodes ! j) = Some j" and jv: "j \<notin> visited" by auto
    from adjacent_sym[OF adj] have "adjacent links thr (nodes ! j) z" .
    from old[OF k e this jz] have "jz \<in> V0" .
    from old[OF this jzn adj mj] have "j \<in> V0" .
    with v0 jv show False by auto
  qed
  have c1: "V0 \<subseteq> visited'" using v0 sub by auto
  have c3: "visited' \<subseteq> {..<length nodes}" using vn a(2) a(5) by auto
  have c4: "set queue' \<subseteq> visited' - V0" using qv a(1) a(2) a(5) v0 by auto
  have c5: "\<forall>k \<in> visited'. k \<in> set queue' \<or> closedAt nodes links thr visited' k"
  proof
    fix k assume "k \<in> visited'"
    then consider "k \<in> set added" | "k = cur" | "k \<in> set rest" |
      "k \<in> visited" "closedAt nodes links thr visited k"
      using a(2) cls by auto
    then show "k \<in> set queue' \<or> closedAt nodes links thr visited' k"
    proof cases
      case 1 then show ?thesis using a(1) by simp
    next
      case 2
      have "closedAt nodes links thr visited' cur"
        unfolding closedAt_def z_def[symmetric] using clo by blast
      with 2 show ?thesis by simp
    next
      case 3 then show ?thesis using a(1) by simp
    next
      case 4 then show ?thesis using closedAt_mono[OF 4(2) sub] by simp
    qed
  qed
  have c6: "\<exists>idxs'. cluster' = map (\<lambda>j. nodes ! j) (s # idxs') \<and> distinct (s # idxs') \<and>
            set (s # idxs') = visited' - V0 \<and>
            (\<forall>j \<in> set idxs'. \<forall>k \<in> V0. nodes ! k \<noteq> nodes ! j)"
  proof (intro exI[of _ "idxs @ added"] conjI)
    show "cluster' = map (\<lambda>j. nodes ! j) (s # idxs @ added)" using a(4) ix(1) by simp
    have "set added \<inter> set (s # idxs) = {}" using a(5) ix(3) by auto
    then show "distinct (s # idxs @ added)" using ix(2) a(3) by auto
    show "set (s # idxs @ added) = visited' - V0" using ix(3) a(2) a(5) v0 by auto
    show "\<forall>j \<in> set (idxs @ added). \<forall>k \<in> V0. nodes ! k \<noteq> nodes ! j"
      using ix(4) notold by auto
  qed
  have c7: "(\<exists>k \<in> V0. nodes ! k = nodes ! s) \<longrightarrow> length cluster' = 1"
  proof
    assume h: "\<exists>k \<in> V0. nodes ! k = nodes ! s"
    then obtain k where k: "k \<in> V0" "nodes ! k = nodes ! s" by blast
    from h pb have "length cluster = 1" by blast
    then have "idxs = []" using ix(1) by simp
    with ix(3) qv have "cur = s" by auto
    have "added = []"
    proof (rule ccontr)
      assume "added \<noteq> []"
      then obtain j where j: "j \<in> set added" by (cases added) auto
      with a(5) have adj: "adjacent links thr z (nodes ! j)"
        and mj: "nodeIndexMap nodes (nodes ! j) = Some j" and jv: "j \<notin> visited" by auto
      have "nodes ! k = z" using k \<open>cur = s\<close> by (simp add: z_def)
      from old[OF k(1) this adj mj] have "j \<in> V0" .
      with v0 jv show False by auto
    qed
    with a(4) \<open>length cluster = 1\<close> show "length cluster' = 1" by simp
  qed
  from c1 s0 c3 c4 c5 c6 c7 show ?thesis by (simp add: bfsInv_def)
qed

lemma bfsLoop_inv:
  "bfsLoop nodes links thr st = (cl, vis) \<Longrightarrow> bfsInv nodes links thr V0 s st \<Longrightarrow>
   \<forall>k \<in> V0. closedAt nodes links thr V0 k \<Longrightarrow>
   bfsInv nodes links thr V0 s (cl, [], vis)"
proof (induction nodes links thr st rule: bfsLoop.induct)
  case (1 nodes links thr cluster queue visited)
  show ?case
  proof (cases queue)
    case Nil
    with "1.prems"(1) have "cl = cluster" "vis = visited" by (simp_all add: bfsLoop.simps)
    with "1.prems"(2) Nil show ?thesis by simp
  next
    case (Cons cur rest)
    obtain c' q' v' where
      f: "fold (linkStep nodes thr (nodeAt nodes cur)) links (cluster, rest, visited) = (c', q', v')"
      by (metis prod_cases3)
    from "1.prems"(1) Cons f have b: "bfsLoop nodes links thr (c', q', v') = (cl, vis)"
      by (simp add: bfsLoop.simps)
    have inv': "bfsInv nodes links thr V0 s (c', q', v')"
      using bfsInv_step[OF "1.prems"(2)[unfolded Cons] "1.prems"(3) f] .
    from "1.IH"[OF Cons, unfolded f, OF b inv' "1.prems"(3)] show ?thesis .
  qed
qed

lemma clusterStep_visited:
  "s \<in> visited \<Longrightarrow> clusterStep nodes links thr (s, x) (clusters, visited) = (clusters, visited)"
  by (simp add: clusterStep_def)

lemma clusterStep_unvisited:
  assumes sv: "s \<notin> visited" and sn: "s < length nodes"
    and vn: "visited \<subseteq> {..<length nodes}"
    and cl0: "\<forall>k \<in> visited. closedAt nodes links thr visited k"
  shows "\<exists>cl vis. clusterStep nodes links thr (s, nodes ! s) (clusters, visited)
            = (if 2 \<le> length cl then clusters @ [cl] else clusters, vis) \<and>
           bfsInv nodes links thr visited s (cl, [], vis)"
proof -
  obtain cl vis where b: "bfsLoop nodes links thr ([nodes ! s], [s], insert s visited) = (cl, vis)"
    by (cases "bfsLoop nodes links thr ([nodes ! s], [s], insert s visited)") blast
  have i0: "bfsInv nodes links thr visited s ([nodes ! s], [s], insert s visited)"
    unfolding bfsInv_def using sv sn vn cl0
    by (auto intro: closedAt_mono[of nodes links thr visited _ "insert s visited"])
  from bfsLoop_inv[OF b i0 cl0] have "bfsInv nodes links thr visited s (cl, [], vis)" .
  moreover have "clusterStep nodes links thr (s, nodes ! s) (clusters, visited)
            = (if 2 \<le> length cl then clusters @ [cl] else clusters, vis)"
    using sv b by (simp add: clusterStep_def)
  ultimately show ?thesis by blast
qed

lemma clusterStep_outerInv:
  assumes inv: "outerInv nodes links thr (clusters, visited)" and sn: "s < length nodes"
  shows "outerInv nodes links thr (clusterStep nodes links thr (s, nodes ! s) (clusters, visited))"
proof (cases "s \<in> visited")
  case True
  with inv show ?thesis by (simp add: clusterStep_visited)
next
  case False
  from inv have vn: "visited \<subseteq> {..<length nodes}"
    and cl0: "\<forall>k \<in> visited. closedAt nodes links thr visited k"
    and mem: "\<forall>c \<in> set clusters. 2 \<le> length c \<and> (\<forall>x \<in> set c. \<exists>k \<in> visited. nodes ! k = x)"
    and dis: "\<forall>p q. p < q \<and> q < length clusters \<longrightarrow> set (clusters ! p) \<inter> set (clusters ! q) = {}"
    by (simp_all add: outerInv_def)
  from clusterStep_unvisited[OF False sn vn cl0, of clusters] obtain cl vis where
    st: "clusterStep nodes links thr (s, nodes ! s) (clusters, visited)
            = (if 2 \<le> length cl then clusters @ [cl] else clusters, vis)"
    and b: "bfsInv nodes links thr visited s (cl, [], vis)" by blast
  from b have v0: "visited \<subseteq> vis" and visn: "vis \<subseteq> {..<length nodes}"
    and clo: "\<forall>k \<in> vis. closedAt nodes links thr vis k"
    and pb: "(\<exists>k \<in> visited. nodes ! k = nodes ! s) \<longrightarrow> length cl = 1"
    by (simp_all add: bfsInv_def)
  from b obtain idxs where ix: "cl = map (\<lambda>j. nodes ! j) (s # idxs)"
    "set (s # idxs) = vis - visited" "\<forall>j \<in> set idxs. \<forall>k \<in> visited. nodes ! k \<noteq> nodes ! j"
    by (auto simp add: bfsInv_def)
  have mem_new: "\<forall>x \<in> set cl. \<exists>k \<in> vis. nodes ! k = x"
  proof
    fix x assume "x \<in> set cl"
    then obtain j where "j \<in> set (s # idxs)" "x = nodes ! j" unfolding ix(1) by auto
    with ix(2) show "\<exists>k \<in> vis. nodes ! k = x" by blast
  qed
  have mem_old: "\<forall>c \<in> set clusters. 2 \<le> length c \<and> (\<forall>x \<in> set c. \<exists>k \<in> vis. nodes ! k = x)"
    using mem v0 by blast
  show ?thesis
  proof (cases "2 \<le> length cl")
    case small: False
    with st have "clusterStep nodes links thr (s, nodes ! s) (clusters, visited) = (clusters, vis)"
      by simp
    then show ?thesis using visn clo mem_old dis by (simp add: outerInv_def)
  next
    case big: True
    have fresh: "\<forall>x \<in> set cl. \<forall>k \<in> visited. nodes ! k \<noteq> x"
    proof (intro ballI)
      fix x k assume x: "x \<in> set cl" and k: "k \<in> visited"
      from x obtain j where j: "j \<in> set (s # idxs)" "x = nodes ! j" unfolding ix(1) by auto
      show "nodes ! k \<noteq> x"
      proof (cases "j = s")
        case True
        show ?thesis
        proof
          assume "nodes ! k = x"
          with True j k have "\<exists>k \<in> visited. nodes ! k = nodes ! s" by blast
          with pb big show False by simp
        qed
      next
        case False
        with j have "j \<in> set idxs" by simp
        with ix(3) k j show ?thesis by blast
      qed
    qed
    have disj_new: "set c \<inter> set cl = {}" if "c \<in> set clusters" for c
      using mem that fresh by blast
    have dis': "\<forall>p q. p < q \<and> q < length (clusters @ [cl]) \<longrightarrow>
        set ((clusters @ [cl]) ! p) \<inter> set ((clusters @ [cl]) ! q) = {}"
    proof (intro allI impI)
      fix p q assume pq: "p < q \<and> q < length (clusters @ [cl])"
      show "set ((clusters @ [cl]) ! p) \<inter> set ((clusters @ [cl]) ! q) = {}"
      proof (cases "q < length clusters")
        case True
        with pq dis show ?thesis by (simp add: nth_append)
      next
        case False
        with pq have q: "q = length clusters" and p: "p < length clusters" by auto
        from p have "clusters ! p \<in> set clusters" by simp
        from disj_new[OF this] q p show ?thesis by (simp add: nth_append)
      qed
    qed
    from st big have "clusterStep nodes links thr (s, nodes ! s) (clusters, visited)
        = (clusters @ [cl], vis)" by simp
    then show ?thesis using visn clo mem_old mem_new big dis'
      by (simp add: outerInv_def)
  qed
qed

lemma clusterFold_outerInv:
  "\<forall>p \<in> set ps. fst p < length nodes \<and> snd p = nodes ! fst p \<Longrightarrow>
   outerInv nodes links thr st \<Longrightarrow>
   outerInv nodes links thr (fold (clusterStep nodes links thr) ps st)"
proof (induction ps arbitrary: st)
  case Nil
  then show ?case by simp
next
  case (Cons p ps)
  obtain s x where p: "p = (s, x)" by (cases p)
  obtain clusters visited where st: "st = (clusters, visited)" by (cases st)
  from Cons.prems(1) p have sx: "s < length nodes" "x = nodes ! s" by auto
  have "outerInv nodes links thr (clusterStep nodes links thr p st)"
    using clusterStep_outerInv[OF Cons.prems(2)[unfolded st] sx(1)] p st sx(2) by simp
  from Cons.IH[OF _ this] Cons.prems(1) show ?case by simp
qed

lemma enumerate_nodes:
  "\<forall>p \<in> set (enumerate 0 nodes). fst p < length nodes \<and> snd p = nodes ! fst p"
  by (auto simp add: in_set_enumerate_eq)

lemma detectClusters_outerInv:
  "\<exists>vis. outerInv nodes links thr (detectClusters nodes links thr, vis)"
proof -
  have "outerInv nodes links thr ([], {})" by (simp add: outerInv_def)
  from clusterFold_outerInv[OF enumerate_nodes this]
  have "outerInv nodes links thr (fold (clusterStep nodes links thr) (enumerate 0 nodes) ([], {}))" .
  then show ?thesis unfolding detectClusters_def
    by (cases "fold (clusterStep nodes links thr) (enumerate 0 nodes) ([], {})") auto
qed

lemma detectClusters_triple:
  assumes d: "distinct [a, b, c]"
    and ab: "adjacent links thr a b" and ac: "adjacent links thr a c"
  shows "\<exists>cl. detectClusters [a, b, c] links thr = [cl] \<and> set cl = {a, b, c} \<and> length cl = 3"
proof -
  define nodes where "nodes = [a, b, c]"
  have n: "length nodes = 3" "nodes ! 0 = a" "nodes ! 1 = b" "nodes ! 2 = c"
    by (simp_all add: nodes_def)
  have dn: "distinct nodes" using d by (simp add: nodes_def)
  have m: "nodeIndexMap nodes b = Some 1" "nodeIndexMap nodes c = Some 2"
    using nodeIndexMap_distinct[OF dn, of 1] nodeIndexMap_distinct[OF dn, of 2] n by simp_all
  have en: "enumerate 0 nodes = [(0, nodes ! 0), (1, nodes ! 1), (2, nodes ! 2)]"
    by (simp add: nodes_def)
  have "\<exists>cl vis. clusterStep nodes links thr (0, nodes ! 0) ([], {})
            = (if 2 \<le> length cl then [] @ [cl] else [], vis) \<and>
           bfsInv nodes links thr {} 0 (cl, [], vis)"
    by (rule clusterStep_unvisited) (simp_all add: n)
  then obtain cl vis where
    st: "clusterStep nodes links thr (0, nodes ! 0) ([], {})
            = (if 2 \<le> length cl then [] @ [cl] else [], vis)"
    and b: "bfsInv nodes links thr {} 0 (cl, [], vis)" by blast
  from b have visn: "vis \<subseteq> {..<3}" and clo: "\<forall>k \<in> vis. closedAt nodes links thr vis k"
    using n by (simp_all add: bfsInv_def)
  from b obtain idxs where ix: "cl = map (\<lambda>j. nodes ! j) (0 # idxs)" "distinct (0 # idxs)"
    "set (0 # idxs) = vis" by (auto simp add: bfsInv_def)
  from ix(3) have v0: "0 \<in> vis" by auto
  with clo have c0: "closedAt nodes links thr vis 0" by blast
  have v1: "1 \<in> vis" using c0 ab m(1) n(2) unfolding closedAt_def by blast
  have v2: "2 \<in> vis" using c0 ac m(2) n(2) unfolding closedAt_def by blast
  have vis: "vis = {0, 1, 2}" using v0 v1 v2 visn by auto
  have len: "length cl = 3"
  proof -
    have "length (0 # idxs) = card (set (0 # idxs))" using ix(2) by (simp only: distinct_card)
    also have "\<dots> = card {0, 1, 2 :: nat}" using ix(3) vis by simp
    also have "\<dots> = 3" by simp
    finally show ?thesis using ix(1) by simp
  qed
  have "set cl = (\<lambda>j. nodes ! j) ` set (0 # idxs)" unfolding ix(1) by (simp only: set_map)
  also have "\<dots> = (\<lambda>j. nodes ! j) ` {0, 1, 2}" using ix(3) vis by simp
  also have "\<dots> = {a, b, c}" using n by simp
  finally have setcl: "set cl = {a, b, c}" .
  from st len have s0: "clusterStep nodes links thr (0, nodes ! 0) ([], {}) = ([cl], {0, 1, 2})"
    using vis by simp
  have "fold (clusterStep nodes links thr) (enumerate 0 nodes) ([], {}) = ([cl], {0, 1, 2})"
    unfolding en by (simp add: s0 clusterStep_visited)
  then have "detectClusters nodes links thr = [cl]" by (simp add: detectClusters_def)
  with setcl len show ?thesis unfolding nodes_def by blast
qed

lemma linkedWith_adjacent:
  assumes "linkedWith links 1 x y"
  shows "adjacent links 0.95 x y"
proof -
  from assms obtain l where l: "l \<in> set links" "similarity l = 1"
    "(source l = x \<and> target l = y) \<or> (source l = y \<and> target l = x)"
    by (auto simp add: linkedWith_def)
  have "similarity l \<ge> 0.95" using l(2) by simp
  with l(1,3) show ?thesis unfolding adjacent_def by blast
qed

text \<open>
  Claim C5. Every cluster returned by \<open>detectClusters\<close> has at least two members, all
  of them subjects of the node list, and no subject appears in two different clusters of
  the result. For three different subjects that are pairwise joined by a link of
  similarity 1.0, at threshold 0.95, the result is exactly one cluster, and it consists of
  the three subjects.
\<close>

theorem detectClusters_clusters:
  "(\<forall>cl \<in> set (detectClusters nodes links thr). 2 \<le> length cl \<and> set cl \<subseteq> set nodes) \<and>
   (\<forall>p q. p < q \<and> q < length (detectClusters nodes links thr) \<longrightarrow>
      set (detectClusters nodes links thr ! p) \<inter> set (detectClusters nodes links thr ! q) = {}) \<and>
   (distinct [a, b, c] \<and> linkedWith links 1 a b \<and> linkedWith links 1 a c \<and>
    linkedWith links 1 b c \<longrightarrow>
      (\<exists>cl. detectClusters [a, b, c] links 0.95 = [cl] \<and> set cl = {a, b, c} \<and> length cl = 3))"
proof (intro conjI)
  from detectClusters_outerInv[of nodes links thr] obtain vis where
    inv: "outerInv nodes links thr (detectClusters nodes links thr, vis)" by blast
  then have vn: "vis \<subseteq> {..<length nodes}"
    and mem: "\<forall>cl \<in> set (detectClusters nodes links thr).
                2 \<le> length cl \<and> (\<forall>x \<in> set cl. \<exists>k \<in> vis. nodes ! k = x)"
    and dis: "\<forall>p q. p < q \<and> q < length (detectClusters nodes links thr) \<longrightarrow>
      set (detectClusters nodes links thr ! p) \<inter> set (detectClusters nodes links thr ! q) = {}"
    by (simp_all add: outerInv_def)
  show "\<forall>cl \<in> set (detectClusters nodes links thr). 2 \<le> length cl \<and> set cl \<subseteq> set nodes"
  proof
    fix cl assume "cl \<in> set (detectClusters nodes links thr)"
    with mem have l: "2 \<le> length cl" and m: "\<forall>x \<in> set cl. \<exists>k \<in> vis. nodes ! k = x" by auto
    have "set cl \<subseteq> set nodes"
    proof
      fix x assume "x \<in> set cl"
      with m obtain k where "k \<in> vis" "nodes ! k = x" by blast
      with vn show "x \<in> set nodes" by auto
    qed
    with l show "2 \<le> length cl \<and> set cl \<subseteq> set nodes" by simp
  qed
  show "\<forall>p q. p < q \<and> q < length (detectClusters nodes links thr) \<longrightarrow>
      set (detectClusters nodes links thr ! p) \<inter> set (detectClusters nodes links thr ! q) = {}"
    by (rule dis)
  show "distinct [a, b, c] \<and> linkedWith links 1 a b \<and> linkedWith links 1 a c \<and>
    linkedWith links 1 b c \<longrightarrow>
      (\<exists>cl. detectClusters [a, b, c] links 0.95 = [cl] \<and> set cl = {a, b, c} \<and> length cl = 3)"
    using detectClusters_triple[of a b c links "0.95"] linkedWith_adjacent[of links] by blast
qed

theorem detectClusters_clusters_witness:
  "distinct [0, 1, 2 :: nat] \<and>
   linkedWith (projr (generateLinksOptimized (exampleApp 3) zeroDraws)) 1 0 1 \<and>
   linkedWith (projr (generateLinksOptimized (exampleApp 3) zeroDraws)) 1 0 2 \<and>
   linkedWith (projr (generateLinksOptimized (exampleApp 3) zeroDraws)) 1 1 2 \<and>
   detectClusters [0, 1, 2] (projr (generateLinksOptimized (exampleApp 3) zeroDraws)) 0.95
     = [[0, 1, 2]] \<and>
   (\<exists>cl. detectClusters [0, 1, 2] (projr (generateLinksOptimized (exampleApp 3) zeroDraws)) 0.95
      = [cl] \<and> set cl = {0, 1, 2} \<and> length cl = 3)"
proof -
  have l: "linkedWith (projr (generateLinksOptimized (exampleApp 3) zeroDraws)) 1 0 1"
    "linkedWith (projr (generateLinksOptimized (exampleApp 3) zeroDraws)) 1 0 2"
    "linkedWith (projr (generateLinksOptimized (exampleApp 3) zeroDraws)) 1 1 2"
    by (simp_all add: example3_links linkedWith_def)
  have d: "detectClusters [0, 1, 2 :: nat] (projr (generateLinksOptimized (exampleApp 3) zeroDraws)) 0.95
     = [[0, 1, 2]]"
    unfolding example3_links by code_simp
  have "distinct [0, 1, 2 :: nat]" by simp
  with detectClusters_clusters[where a = "0::nat" and b = 1 and c = 2
      and links = "projr (generateLinksOptimized (exampleApp 3) zeroDraws)",
      THEN conjunct2, THEN conjunct2] l d
  show ?thesis by blast
qed

section \<open>Subjectivity extraction: fallback values\<close>

text \<open>
  The text \<open>hello\<close> holds none of the temporal indicators, and the empty text none at
  all: the temporal analyzer answers \<open>mixed\<close> with score 0.33, not 0.5.
\<close>

theorem analyzeTemporalOrientation_score_counterexample:
  "countWordIndicators pastIndicators (toLowerCase ''hello'')
     + countWordIndicators presentIndicators (toLowerCase ''hello'')
     + countWordIndicators futureIndicators (toLowerCase ''hello'') = 0 \<and>
   analyzeTemporalOrientation ''hello''
     = \<lparr>to_orientation = ''mixed'', to_score = 0.33, to_distribution = None\<rparr> \<and>
   to_score (temporal_orientation (extractSubjectivity emptyNode)) \<noteq> 0.5"
  by code_simp

lemma lexicalDiversity_empty: "lexicalDiversity [] = 0"
  by (simp add: lexicalDiversity_def toLowerCase_def wordsOf_def)

text \<open>
  Claim C8, as amended. \<open>extractSubjectivity\<close> is a total function: it has no failing
  branch. On a node whose text is absent or empty it returns narrative style
  \<open>conversational\<close> with score 0.5, emotional expression \<open>moderate\<close> with intensity 0.5,
  temporal orientation \<open>mixed\<close> with score 0.33, self reference \<open>medium\<close> with score 0.5,
  complexity \<open>moderate\<close> with score 0.5, authenticity \<open>casual\<close> with score 0.5, rhythm
  0.5, reflection depth 0.5, expression mode \<open>direct\<close> with score 0.5 and, when the two
  vectors are absent or empty as well, uniqueness 0.35. On any text in which an analyzer
  finds none of its indicators, the narrative analyzer returns \<open>conversational\<close> with
  score 0.5, the authenticity analyzer \<open>casual\<close> with score 0.5, the expression-mode
  analyzer \<open>direct\<close> with score 0.5, and the temporal analyzer \<open>mixed\<close> with score 0.33.
\<close>

theorem extractSubjectivity_fallback:
  "(orEmpty (text_content nd) = [] \<longrightarrow>
      narrative_style (extractSubjectivity nd)
        = \<lparr>ns_type = ''conversational'', ns_score = 0.5, ns_distribution = None\<rparr> \<and>
      emotional_expression (extractSubjectivity nd)
        = \<lparr>ee_level = ''moderate'', ee_intensity = 0.5\<rparr> \<and>
      temporal_orientation (extractSubjectivity nd)
        = \<lparr>to_orientation = ''mixed'', to_score = 0.33, to_distribution = None\<rparr> \<and>
      self_reference (extractSubjectivity nd) = \<lparr>sr_level = ''medium'', sr_score = 0.5\<rparr> \<and>
      complexity (extractSubjectivity nd) = \<lparr>cx_level = ''moderate'', cx_score = 0.5\<rparr> \<and>
      authenticity (extractSubjectivity nd)
        = \<lparr>au_style = ''casual'', au_score = 0.5, au_distribution = None\<rparr> \<and>
      rhythm (extractSubjectivity nd) = 0.5 \<and>
      reflection_depth (extractSubjectivity nd) = 0.5 \<and>
      expression_mode (extractSubjectivity nd) = \<lparr>em_mode = ''direct'', em_score = 0.5\<rparr> \<and>
      (orEmpty (semantic (isotype_sig nd)) = [] \<and> orEmpty (emotion (isotype_sig nd)) = []
         \<longrightarrow> uniqueness (extractSubjectivity nd) = 0.35)) \<and>
   (countIndicators directIndicators (toLowerCase text)
      + countIndicators reflectiveIndicators (toLowerCase text)
      + countIndicators metaphoricalIndicators (toLowerCase text)
      + countIndicators conversationalIndicators (toLowerCase text) = 0 \<longrightarrow>
      analyzeNarrativeStyle text
        = \<lparr>ns_type = ''conversational'', ns_score = 0.5, ns_distribution = None\<rparr>) \<and>
   (countWordIndicators formalIndicators (toLowerCase text)
      + countWordIndicators casualIndicators (toLowerCase text)
      + countIndicators intimateIndicators (toLowerCase text) = 0 \<longrightarrow>
      analyzeAuthenticity text
        = \<lparr>au_style = ''casual'', au_score = 0.5, au_distribution = None\<rparr>) \<and>
   (countIndicators modeDirectIndicators (toLowerCase text)
      + countWordIndicators indirectIndicators (toLowerCase text) = 0 \<longrightarrow>
      analyzeExpressionMode text = \<lparr>em_mode = ''direct'', em_score = 0.5\<rparr>) \<and>
   (countWordIndicators pastIndicators (toLowerCase text)
      + countWordIndicators presentIndicators (toLowerCase text)
      + countWordIndicators futureIndicators (toLowerCase text) = 0 \<longrightarrow>
      analyzeTemporalOrientation text
        = \<lparr>to_orientation = ''mixed'', to_score = 0.33, to_distribution = None\<rparr>)"
proof (intro conjI impI)
  assume e: "orEmpty (text_content nd) = []"
  show "narrative_style (extractSubjectivity nd)
        = \<lparr>ns_type = ''conversational'', ns_score = 0.5, ns_distribution = None\<rparr>"
    by (simp add: extractSubjectivity_def Let_def e analyzeNarrativeStyle_def)
  show "emotional_expression (extractSubjectivity nd)
        = \<lparr>ee_level = ''moderate'', ee_intensity = 0.5\<rparr>"
    by (simp add: extractSubjectivity_def Let_def e analyzeEmotionalExpression_def)
  show "temporal_orientation (extractSubjectivity nd)
        = \<lparr>to_orientation = ''mixed'', to_score = 0.33, to_distribution = None\<rparr>"
    by (simp add: extractSubjectivity_def Let_def e analyzeTemporalOrientation_def)
  show "self_reference (extractSubjectivity nd) = \<lparr>sr_level = ''medium'', sr_score = 0.5\<rparr>"
    by (simp add: extractSubjectivity_def Let_def e analyzeSelfReference_def)
  show "complexity (extractSubjectivity nd) = \<lparr>cx_level = ''moderate'', cx_score = 0.5\<rparr>"
    by (simp add: extractSubjectivity_def Let_def e analyzeComplexity_def)
  show "authenticity (extractSubjectivity nd)
        = \<lparr>au_style = ''casual'', au_score = 0.5, au_distribution = None\<rparr>"
    by (simp add: extractSubjectivity_def Let_def e analyzeAuthenticity_def)
  show "rhythm (extractSubjectivity nd) = 0.5"
    by (simp add: extractSubjectivity_def Let_def e analyzeRhythm_def)
  show "reflection_depth (extractSubjectivity nd) = 0.5"
    by (simp add: extractSubjectivity_def Let_def e analyzeReflectionDepth_def)
  show "expression_mode (extractSubjectivity nd) = \<lparr>em_mode = ''direct'', em_score = 0.5\<rparr>"
    by (simp add: extractSubjectivity_def Let_def e analyzeExpressionMode_def)
  assume v: "orEmpty (semantic (isotype_sig nd)) = [] \<and> orEmpty (emotion (isotype_sig nd)) = []"
  show "uniqueness (extractSubjectivity nd) = 0.35"
    by (simp add: extractSubjectivity_def Let_def e v calculateUniqueness_def lexicalDiversity_empty)
next
  assume "countIndicators directIndicators (toLowerCase text)
      + countIndicators reflectiveIndicators (toLowerCase text)
      + countIndicators metaphoricalIndicators (toLowerCase text)
      + countIndicators conversationalIndicators (toLowerCase text) = 0"
  then show "analyzeNarrativeStyle text
        = \<lparr>ns_type = ''conversational'', ns_score = 0.5, ns_distribution = None\<rparr>"
    by (simp add: analyzeNarrativeStyle_def Let_def)
next
  assume "countWordIndicators formalIndicators (toLowerCase text)
      + countWordIndicators casualIndicators (toLowerCase text)
      + countIndicators intimateIndicators (toLowerCase text) = 0"
  then show "analyzeAuthenticity text
        = \<lparr>au_style = ''casual'', au_score = 0.5, au_distribution = None\<rparr>"
    by (simp add: analyzeAuthenticity_def Let_def)
next
  assume "countIndicators modeDirectIndicators (toLowerCase text)
      + countWordIndicators indirectIndicators (toLowerCase text) = 0"
  then show "analyzeExpressionMode text = \<lparr>em_mode = ''direct'', em_score = 0.5\<rparr>"
    by (simp add: analyzeExpressionMode_def Let_def)
next
  assume "countWordIndicators pastIndicators (toLowerCase text)
      + countWordIndicators presentIndicators (toLowerCase text)
      + countWordIndicators futureIndicators (toLowerCase text) = 0"
  then show "analyzeTemporalOrientation text
        = \<lparr>to_orientation = ''mixed'', to_score = 0.33, to_distribution = None\<rparr>"
    by (simp add: analyzeTemporalOrientation_def Let_def)
qed

theorem extractSubjectivity_fallback_witness:
  "orEmpty (text_content emptyNode) = [] \<and>
   orEmpty (semantic (isotype_sig emptyNode)) = [] \<and>
   orEmpty (emotion (isotype_sig emptyNode)) = [] \<and>
   narrative_style (extractSubjectivity emptyNode)
     = \<lparr>ns_type = ''conversational'', ns_score = 0.5, ns_distribution = None\<rparr> \<and>
   uniqueness (extractSubjectivity emptyNode) = 0.35 \<and>
   countIndicators modeDirectIndicators (toLowerCase ''hello'')
      + countWordIndicators indirectIndicators (toLowerCase ''hello'') = 0 \<and>
   analyzeExpressionMode ''hello'' = \<lparr>em_mode = ''direct'', em_score = 0.5\<rparr>"
proof -
  have e: "orEmpty (text_content emptyNode) = []"
    "orEmpty (semantic (isotype_sig emptyNode)) = []"
    "orEmpty (emotion (isotype_sig emptyNode)) = []"
    by (simp_all add: emptyNode_def orEmpty_def)
  have h: "countIndicators modeDirectIndicators (toLowerCase ''hello'')
      + countWordIndicators indirectIndicators (toLowerCase ''hello'') = 0"
    by code_simp
  from extractSubjectivity_fallback[of emptyNode "''hello''"] e h show ?thesis by simp
qed

section \<open>Noise field\<close>











end
